theory Spec2Isabelle
  imports Main
begin

section \<open>Data model\<close>

text \<open>
  Values that flow through effects.  JavaScript objects are association lists from
  property names to values; everything that is not an object is a scalar.
\<close>

datatype jsval =
    Undefined
  | Num int
  | Str string
  | Obj "(string \<times> jsval) list"

text \<open>What an observable can deliver to a subscriber (the rxjs observer contract).\<close>

datatype 'a notif = OnNext 'a | OnError string | OnComplete

text \<open>
  \<^verbatim>\<open>effect: Function\<close> of \<^verbatim>\<open>InitEffectArgs\<close> (interfaces.ts).  A user function is
  represented by what one call of it does: it throws synchronously, or it returns a
  value of one of the shapes the engine distinguishes.  A returned stream carries the
  notifications it delivers synchronously when it is subscribed.
\<close>

datatype effect_result =
    RUndefined
  | RTeardown nat
  | RSubscription nat
  | RStream "jsval notif list"
  | RPlain jsval

datatype effect_fn = Throws string | Returns effect_result

text \<open>
  \<^verbatim>\<open>EffectOptions\<close>: the fields \<^verbatim>\<open>bind\<close>, \<^verbatim>\<open>apply\<close>, \<^verbatim>\<open>markDirty\<close>,
  \<^verbatim>\<open>detectChanges\<close>, \<^verbatim>\<open>whenRendered\<close> (README, "Effect options").
\<close>

record effect_options =
  bind_opt :: "string option"
  apply_opt :: bool
  markDirty :: bool
  detectChanges :: bool
  whenRendered :: bool

text \<open>The resolved binding target of an entry: one property, the whole object, or none.\<close>

datatype binding_target = BindProp string | BindWhole | NoBinding

text \<open>
  One element of the \<^verbatim>\<open>EFFECTS\<close> array, with the fields that \<^verbatim>\<open>InitEffects.run\<close>
  destructures: \<^verbatim>\<open>{ effect, binding, options, adapter, notifier }\<close>.  The remaining
  fields of \<^verbatim>\<open>InitEffectArgs\<close> (\<^verbatim>\<open>hostContext\<close>, \<^verbatim>\<open>cdr\<close>, \<^verbatim>\<open>subs\<close>,
  \<^verbatim>\<open>viewRenderer\<close>) are the same for every entry of a host and live in the world below,
  so an entry stands for its \<^verbatim>\<open>args\<close> object.
\<close>

record effect_metadata =
  effect :: effect_fn
  binding :: binding_target
  options :: effect_options
  adapter :: "nat option"
  notifier :: nat

text \<open>
  The members of an rxjs \<^verbatim>\<open>Subscription\<close> used as the aggregate teardown scope
  \<^verbatim>\<open>subs\<close>: a teardown function, a subscription object returned by an effect, the
  subscription to an effect's stream, and the subscription of a render-gated entry to
  the \<^verbatim>\<open>whenRendered\<close> stream.
\<close>

datatype member =
    MTeardown nat
  | MSubscription nat
  | MStream effect_metadata
  | MGate effect_metadata

datatype channel_error =
    ApplyNonObject jsval
  | MissingProperty string
  | UpstreamError string

datatype cd_request = MarkDirtyReq | DetectChangesReq

datatype token = InitEffectsT | OtherT string

datatype ctx_event = CtxAdd nat | Resolve token "nat set" | CtxClear

text \<open>
  The mutable state one host instance can observe.
  \<^item> \<open>props\<close>: the own properties of \<^verbatim>\<open>hostContext\<close>;
  \<^item> \<open>subs_closed\<close>, \<open>subs_members\<close>: the aggregate \<^verbatim>\<open>Subscription\<close> \<^verbatim>\<open>this.subs\<close>;
  \<^item> \<open>gate_subs\<close>: the live subscribers of \<^verbatim>\<open>viewRenderer.whenRendered().pipe(take(1))\<close>,
    in subscription order; \<open>gate_replay\<close>: what that stream delivers synchronously to a
    new subscriber (empty while no render has been committed);
  \<^item> \<open>currentContext\<close>: the shared set of internals/constants.ts; \<open>constructed\<close>: whether
    the host injector already holds its \<^verbatim>\<open>InitEffects\<close> instance;
  \<^item> logs of what happened, in order: \<open>invoked\<close> (calls of \<^verbatim>\<open>initEffect\<close>),
    \<open>cancelled\<close> (members unsubscribed by the scope; a teardown function is called when
    it is cancelled), \<open>console\<close> (\<^verbatim>\<open>console.error\<close>), \<open>uncaught\<close> (errors thrown
    inside a subscriber callback, which rxjs reports to the global handler),
    \<open>error_channel\<close>, \<open>cd_log\<close>, \<open>handler_log\<close> and \<open>ctx_log\<close>.
\<close>

record world =
  props :: "string \<rightharpoonup> jsval"
  subs_closed :: bool
  subs_members :: "member list"
  gate_subs :: "effect_metadata list"
  gate_replay :: "unit notif list"
  currentContext :: "nat set"
  constructed :: bool
  invoked :: "effect_metadata list"
  cancelled :: "member list"
  console :: "string list"
  uncaught :: "string list"
  error_channel :: "channel_error list"
  cd_log :: "cd_request list"
  handler_log :: "(nat \<times> jsval) list"
  ctx_log :: "ctx_event list"

text \<open>A call either returns the new world or throws, leaving the world as it was then.\<close>

type_synonym outcome = "(string \<times> world) + world"

fun result_world :: "outcome \<Rightarrow> world" where
  "result_world (Inl (x, w)) = w"
| "result_world (Inr w) = w"

definition new_world :: "(string \<rightharpoonup> jsval) \<Rightarrow> unit notif list \<Rightarrow> world" where
  "new_world p r =
     \<lparr> props = p, subs_closed = False, subs_members = [], gate_subs = [],
       gate_replay = r, currentContext = {}, constructed = False, invoked = [],
       cancelled = [], console = [], uncaught = [], error_channel = [], cd_log = [],
       handler_log = [], ctx_log = [] \<rparr>"

section \<open>The aggregate teardown scope (rxjs Subscription)\<close>

text \<open>
  \<^verbatim>\<open>Subscription.unsubscribe\<close> of one member.  Cancelling the subscription of a gated
  entry removes its subscriber from the render stream.
\<close>

fun cancel_member :: "member \<Rightarrow> world \<Rightarrow> world" where
  "cancel_member (MGate e) w =
     w\<lparr>gate_subs := remove1 e (gate_subs w), cancelled := cancelled w @ [MGate e]\<rparr>"
| "cancel_member m w = w\<lparr>cancelled := cancelled w @ [m]\<rparr>"

text \<open>
  \<^verbatim>\<open>subs.add(teardown)\<close>: a closed scope cancels what is added to it at once, an open
  one keeps it.
\<close>

definition subs_add :: "member \<Rightarrow> world \<Rightarrow> world" where
  "subs_add m w =
     (if subs_closed w then cancel_member m w
      else w\<lparr>subs_members := subs_members w @ [m]\<rparr>)"

text \<open>
  \<^verbatim>\<open>subs.unsubscribe()\<close>: nothing when already closed; otherwise the scope is marked
  closed, its member list is dropped, and every member is cancelled in order.
\<close>

definition subs_unsubscribe :: "world \<Rightarrow> world" where
  "subs_unsubscribe w =
     (if subs_closed w then w
      else fold cancel_member (subs_members w) (w\<lparr>subs_closed := True, subs_members := []\<rparr>))"

section \<open>The invocation engine\<close>

text \<open>
  Modelled from the spec: \<^verbatim>\<open>initEffect\<close> of internals/utils.ts, which
  \<^verbatim>\<open>init-effects.ts\<close> imports and which is not among the sources.  Section 4.4 of the
  specification gives its contract; the definitions \<open>after_write\<close>, \<open>write_all\<close>,
  \<open>onNext\<close>, \<open>subscribe_stream\<close> and \<open>initEffect\<close> follow that text.

  After a successful write, \<^verbatim>\<open>detectChanges\<close> asks for a synchronous check and
  \<^verbatim>\<open>markDirty\<close> for a scheduled one.
\<close>

definition after_write :: "effect_options \<Rightarrow> world \<Rightarrow> world" where
  "after_write opts w =
     (if detectChanges opts then w\<lparr>cd_log := cd_log w @ [DetectChangesReq]\<rparr>
      else if markDirty opts then w\<lparr>cd_log := cd_log w @ [MarkDirtyReq]\<rparr>
      else w)"

text \<open>Modelled from the spec: every key of the emitted object is written onto the host.\<close>

fun write_all :: "(string \<times> jsval) list \<Rightarrow> (string \<rightharpoonup> jsval) \<Rightarrow> (string \<rightharpoonup> jsval)" where
  "write_all [] m = m"
| "write_all ((k, v) # kvs) m = write_all kvs (m(k \<mapsto> v))"

text \<open>
  Modelled from the spec: what the engine does with one emitted value.  A handler, when
  configured, receives the value and nothing is written; otherwise a whole-object
  binding writes every key of an object and reports a binding error for anything else,
  a single binding writes a property the host owns and reports a binding error when the
  host does not own it, and an entry without binding target writes nothing.
\<close>

definition onNext :: "effect_metadata \<Rightarrow> jsval \<Rightarrow> world \<Rightarrow> world" where
  "onNext e v w =
     (case adapter e of
        Some h \<Rightarrow> w\<lparr>handler_log := handler_log w @ [(h, v)]\<rparr>
      | None \<Rightarrow>
          (case binding e of
             BindWhole \<Rightarrow>
               (case v of
                  Obj kvs \<Rightarrow> after_write (options e) (w\<lparr>props := write_all kvs (props w)\<rparr>)
                | _ \<Rightarrow> w\<lparr>error_channel := error_channel w @ [ApplyNonObject v]\<rparr>)
           | BindProp p \<Rightarrow>
               (if props w p \<noteq> None
                then after_write (options e) (w\<lparr>props := (props w)(p \<mapsto> v)\<rparr>)
                else w\<lparr>error_channel := error_channel w @ [MissingProperty p]\<rparr>)
           | NoBinding \<Rightarrow> w))"

text \<open>
  Modelled from the spec: the engine subscribes to a returned stream.  Values are handled
  one by one; an error of the stream goes to the global error channel and closes the
  subscription, completion closes it; a subscription that is still open is registered
  in the aggregate scope.
\<close>

fun subscribe_stream :: "effect_metadata \<Rightarrow> jsval notif list \<Rightarrow> world \<Rightarrow> world" where
  "subscribe_stream e [] w = subs_add (MStream e) w"
| "subscribe_stream e (OnNext v # ns) w = subscribe_stream e ns (onNext e v w)"
| "subscribe_stream e (OnError x # ns) w =
     w\<lparr>error_channel := error_channel w @ [UpstreamError x]\<rparr>"
| "subscribe_stream e (OnComplete # ns) w = w"

text \<open>
  Modelled from the spec: \<^verbatim>\<open>initEffect(args)\<close>.  A synchronous throw of the effect
  function is not caught; the return value is classified as nothing, teardown function,
  subscription, stream or plain value.
\<close>

definition initEffect :: "effect_metadata \<Rightarrow> world \<Rightarrow> outcome" where
  "initEffect e w =
     (case effect e of
        Throws x \<Rightarrow> Inl (x, w)
      | Returns RUndefined \<Rightarrow> Inr w
      | Returns (RTeardown t) \<Rightarrow> Inr (subs_add (MTeardown t) w)
      | Returns (RSubscription s) \<Rightarrow> Inr (subs_add (MSubscription s) w)
      | Returns (RStream ns) \<Rightarrow> Inr (subscribe_stream e ns w)
      | Returns (RPlain v) \<Rightarrow> Inr (onNext e v w))"

section \<open>InitEffects (init-effects.ts)\<close>

text \<open>A call \<^verbatim>\<open>initEffect(args)\<close> made by \<^verbatim>\<open>run\<close>, recorded in \<open>invoked\<close>.\<close>

definition invoke :: "effect_metadata \<Rightarrow> world \<Rightarrow> outcome" where
  "invoke e w = initEffect e (w\<lparr>invoked := invoked w @ [e]\<rparr>)"

text \<open>
  The subscriber \<^verbatim>\<open>(() => initEffect(args), error => console.error(error))\<close> behind
  \<^verbatim>\<open>take(1)\<close> receives one notification: the first value calls \<^verbatim>\<open>initEffect\<close>
  (rxjs catches what the callback throws and reports it to the global handler), an
  error is printed, and in each case the subscription is closed afterwards.
\<close>

fun gate_handle :: "unit notif \<Rightarrow> effect_metadata \<Rightarrow> world \<Rightarrow> world" where
  "gate_handle (OnNext u) e w =
     (case invoke e w of
        Inl (x, w') \<Rightarrow> w'\<lparr>uncaught := uncaught w' @ [x]\<rparr>
      | Inr w' \<Rightarrow> w')"
| "gate_handle (OnError x) e w = w\<lparr>console := console w @ [x]\<rparr>"
| "gate_handle OnComplete e w = w"

text \<open>
  \<^verbatim>\<open>subs.add(whenRendered.subscribe(...))\<close>: the stream first delivers what it replays;
  if that closed the subscription nothing is added, otherwise the subscriber is live on
  the stream and its subscription is added to the scope.
\<close>

definition run_gated :: "effect_metadata \<Rightarrow> world \<Rightarrow> world" where
  "run_gated e w =
     (case gate_replay w of
        n # ns \<Rightarrow> gate_handle n e w
      | [] \<Rightarrow> subs_add (MGate e) (w\<lparr>gate_subs := gate_subs w @ [e]\<rparr>))"

text \<open>
  \<^verbatim>\<open>run\<close>: the stream \<^verbatim>\<open>viewRenderer.whenRendered().pipe(take(1))\<close> is built once, then
  the \<^verbatim>\<open>for ... of effects\<close> loop subscribes the entries with \<^verbatim>\<open>options.whenRendered\<close>
  to it and calls \<^verbatim>\<open>initEffect\<close> for the others.  Nothing is caught: what
  \<^verbatim>\<open>initEffect\<close> throws ends the loop.
\<close>

fun run :: "effect_metadata list \<Rightarrow> world \<Rightarrow> outcome" where
  "run [] w = Inr w"
| "run (e # es) w =
     (if whenRendered (options e) then run es (run_gated e w)
      else (case invoke e w of
              Inl err \<Rightarrow> Inl err
            | Inr w' \<Rightarrow> run es w'))"

text \<open>The constructor: a fresh \<^verbatim>\<open>Subscription\<close>, then \<^verbatim>\<open>this.run()\<close>.\<close>

definition InitEffects_new :: "effect_metadata list \<Rightarrow> world \<Rightarrow> outcome" where
  "InitEffects_new effects w = run effects (w\<lparr>subs_closed := False, subs_members := []\<rparr>)"

definition ngOnDestroy :: "world \<Rightarrow> world" where
  "ngOnDestroy w = subs_unsubscribe w"

section \<open>The render stream seen from a host\<close>

text \<open>
  One notification of the render stream reaches a subscriber that is still live: the
  handler runs, then the subscription behind \<^verbatim>\<open>take(1)\<close> is closed, which removes it
  from the stream and from the scope that holds it.  A subscriber that has been removed
  meanwhile is skipped.
\<close>

definition gate_close :: "effect_metadata \<Rightarrow> world \<Rightarrow> world" where
  "gate_close e w =
     w\<lparr>gate_subs := remove1 e (gate_subs w),
       subs_members := remove1 (MGate e) (subs_members w)\<rparr>"

definition gate_notify :: "unit notif \<Rightarrow> effect_metadata \<Rightarrow> world \<Rightarrow> world" where
  "gate_notify n e w =
     (if e \<in> set (gate_subs w) then gate_close e (gate_handle n e w) else w)"

text \<open>The stream hands a notification to the subscribers it has when it starts, in order.\<close>

definition gate_deliver :: "unit notif \<Rightarrow> world \<Rightarrow> world" where
  "gate_deliver n w = fold (gate_notify n) (gate_subs w) w"

definition gate_deliver_all :: "unit notif list \<Rightarrow> world \<Rightarrow> world" where
  "gate_deliver_all ns w = fold gate_deliver ns w"

section \<open>The connect function (connect-factory.ts)\<close>

text \<open>
  The host injector is a collaborator of the framework.  What matters of it here: the
  \<^verbatim>\<open>EFFECTS\<close> array it injects into \<^verbatim>\<open>InitEffects\<close>, that it builds the
  \<^verbatim>\<open>InitEffects\<close> instance on first request and hands out the same instance afterwards,
  and that resolving any other initializer either succeeds or throws.
\<close>

record injector =
  EFFECTS :: "effect_metadata list"
  failing :: "string \<Rightarrow> string option"

definition injector_get :: "injector \<Rightarrow> token \<Rightarrow> world \<Rightarrow> outcome" where
  "injector_get ir t w =
     (case t of
        InitEffectsT \<Rightarrow>
          (if constructed w then Inr w
           else (case InitEffects_new (EFFECTS ir) w of
                   Inl err \<Rightarrow> Inl err
                 | Inr w' \<Rightarrow> Inr (w'\<lparr>constructed := True\<rparr>)))
      | OtherT c \<Rightarrow>
          (case failing ir c of
             Some x \<Rightarrow> Inl (x, w)
           | None \<Rightarrow> Inr w))"

text \<open>
  \<^verbatim>\<open>initializers.forEach(injector.get, injector)\<close>; each request is logged together
  with the content of \<open>currentContext\<close> at that moment.
\<close>

fun forEach_get :: "injector \<Rightarrow> token list \<Rightarrow> world \<Rightarrow> outcome" where
  "forEach_get ir [] w = Inr w"
| "forEach_get ir (t # ts) w =
     (case injector_get ir t (w\<lparr>ctx_log := ctx_log w @ [Resolve t (currentContext w)]\<rparr>) of
        Inl err \<Rightarrow> Inl err
      | Inr w' \<Rightarrow> forEach_get ir ts w')"

text \<open>
  \<^verbatim>\<open>connect(context)\<close>: add the context, resolve the initializers, clear the set.  There
  is no \<^verbatim>\<open>finally\<close>: when an initializer throws the set is not cleared.
\<close>

definition connect :: "token list \<Rightarrow> injector \<Rightarrow> nat \<Rightarrow> world \<Rightarrow> outcome" where
  "connect initializers ir context w =
     (case forEach_get ir initializers
             (w\<lparr>currentContext := insert context (currentContext w),
                ctx_log := ctx_log w @ [CtxAdd context]\<rparr>) of
        Inl err \<Rightarrow> Inl err
      | Inr w' \<Rightarrow> Inr (w'\<lparr>currentContext := {}, ctx_log := ctx_log w' @ [CtxClear]\<rparr>))"

section \<open>The effect metadata registry\<close>

text \<open>
  Modelled from the spec: the registry and its \<^verbatim>\<open>resolve\<close> operation (section 4.1);
  the decorators and the code that builds the \<^verbatim>\<open>EFFECTS\<close> array are not among the
  sources.  A registration is what \<^verbatim>\<open>register(declaringClass, methodName, options,
  handlerType)\<close> stores.
\<close>

record registration =
  methodName :: string
  reg_effect :: effect_fn
  reg_options :: effect_options
  handlerType :: "nat option"
  reg_notifier :: nat

datatype config_error = BindWithApply string

text \<open>
  Modelled from the spec: "if \<^verbatim>\<open>options.bind\<close> is set, use it; else if
  \<^verbatim>\<open>options.apply\<close> is set, mark as whole-object bind; else if not in strict mode and a
  host property with the same name as the method exists, bind implicitly to that name;
  else treat as a side-effect.  Fails if \<^verbatim>\<open>bind\<close> is set together with \<^verbatim>\<open>apply\<close>."
\<close>

definition resolve_binding ::
  "bool \<Rightarrow> (string \<rightharpoonup> jsval) \<Rightarrow> string \<Rightarrow> effect_options \<Rightarrow> config_error + binding_target" where
  "resolve_binding strict host name opts =
     (case bind_opt opts of
        Some b \<Rightarrow> (if apply_opt opts then Inl (BindWithApply name) else Inr (BindProp b))
      | None \<Rightarrow>
          (if apply_opt opts then Inr BindWhole
           else if \<not> strict \<and> host name \<noteq> None then Inr (BindProp name)
           else Inr NoBinding))"

text \<open>
  Modelled from the spec: one resolved entry keeps the function, the options, the handler
  and the notifier of its registration and carries the finalized binding target.
\<close>

definition resolve_one ::
  "bool \<Rightarrow> (string \<rightharpoonup> jsval) \<Rightarrow> registration \<Rightarrow> config_error + effect_metadata" where
  "resolve_one strict host r =
     (case resolve_binding strict host (methodName r) (reg_options r) of
        Inl err \<Rightarrow> Inl err
      | Inr b \<Rightarrow>
          Inr \<lparr> effect = reg_effect r, binding = b, options = reg_options r,
                adapter = handlerType r, notifier = reg_notifier r \<rparr>)"

text \<open>
  Modelled from the spec: resolution walks the registrations in declaration order; a
  configuration error is reported and costs only the entry it belongs to.
\<close>

fun resolve ::
  "bool \<Rightarrow> (string \<rightharpoonup> jsval) \<Rightarrow> registration list \<Rightarrow> config_error list \<times> effect_metadata list" where
  "resolve strict host [] = ([], [])"
| "resolve strict host (r # rs) =
     (case resolve_one strict host r of
        Inl err \<Rightarrow> (err # fst (resolve strict host rs), snd (resolve strict host rs))
      | Inr md \<Rightarrow> (fst (resolve strict host rs), md # snd (resolve strict host rs)))"

section \<open>Notions used to state the properties\<close>

definition gated :: "effect_metadata \<Rightarrow> bool" where
  "gated e = whenRendered (options e)"

definition throws :: "effect_metadata \<Rightarrow> bool" where
  "throws e = (case effect e of Throws x \<Rightarrow> True | Returns r \<Rightarrow> False)"

definition conflicting :: "registration \<Rightarrow> bool" where
  "conflicting r = (bind_opt (reg_options r) \<noteq> None \<and> apply_opt (reg_options r))"

fun is_gate :: "member \<Rightarrow> bool" where
  "is_gate (MGate e) = True"
| "is_gate m = False"

fun gates_of :: "member list \<Rightarrow> effect_metadata list" where
  "gates_of [] = []"
| "gates_of (MGate e # ms) = e # gates_of ms"
| "gates_of (m # ms) = gates_of ms"

fun teardowns_of :: "member list \<Rightarrow> nat list" where
  "teardowns_of [] = []"
| "teardowns_of (MTeardown t # ms) = t # teardowns_of ms"
| "teardowns_of (m # ms) = teardowns_of ms"

fun returned_teardowns :: "effect_metadata list \<Rightarrow> nat list" where
  "returned_teardowns [] = []"
| "returned_teardowns (e # es) =
     (case effect e of
        Returns (RTeardown t) \<Rightarrow> t # returned_teardowns es
      | _ \<Rightarrow> returned_teardowns es)"

text \<open>The parts of the world that \<^verbatim>\<open>run\<close> leaves alone, and those the engine leaves alone.\<close>

definition env :: "world \<Rightarrow> unit notif list \<times> bool \<times> nat set \<times> bool \<times> ctx_event list" where
  "env w = (gate_replay w, subs_closed w, currentContext w, constructed w, ctx_log w)"

definition ctl ::
  "world \<Rightarrow> (unit notif list \<times> bool \<times> nat set \<times> bool \<times> ctx_event list) \<times>
            effect_metadata list \<times> effect_metadata list \<times> string list \<times> string list" where
  "ctl w = (env w, invoked w, gate_subs w, console w, uncaught w)"

text \<open>
  The scope of a live host: open, nothing cancelled yet, every live subscriber of the
  render stream registered in it, and holding the teardown functions that the invoked
  effects returned.
\<close>

definition scope_ok :: "world \<Rightarrow> bool" where
  "scope_ok w \<longleftrightarrow>
     \<not> subs_closed w \<and> cancelled w = [] \<and>
     gates_of (subs_members w) = gate_subs w \<and>
     teardowns_of (subs_members w) = returned_teardowns (invoked w)"

text \<open>
  The world of a host after its \<^verbatim>\<open>InitEffects\<close> has been constructed on fresh state
  (with \<open>r\<close> as what the render stream replays) and the render stream has since
  delivered the notifications \<open>ns\<close>.
\<close>

definition live_host ::
  "effect_metadata list \<Rightarrow> (string \<rightharpoonup> jsval) \<Rightarrow> unit notif list \<Rightarrow> unit notif list \<Rightarrow> world" where
  "live_host effects p r ns =
     gate_deliver_all ns (result_world (InitEffects_new effects (new_world p r)))"

section \<open>Sample hosts\<close>

definition ex_options :: effect_options where
  "ex_options =
     \<lparr> bind_opt = None, apply_opt = False, markDirty = False, detectChanges = False,
       whenRendered = False \<rparr>"

definition ex_void :: effect_metadata where
  "ex_void =
     \<lparr> effect = Returns RUndefined, binding = NoBinding, options = ex_options,
       adapter = None, notifier = 0 \<rparr>"

definition ex_teardown :: effect_metadata where
  "ex_teardown =
     \<lparr> effect = Returns (RTeardown 7), binding = NoBinding, options = ex_options,
       adapter = None, notifier = 1 \<rparr>"

definition ex_throwing :: effect_metadata where
  "ex_throwing =
     \<lparr> effect = Throws ''boom'', binding = NoBinding, options = ex_options,
       adapter = None, notifier = 2 \<rparr>"

definition ex_gated :: effect_metadata where
  "ex_gated =
     \<lparr> effect = Returns (RTeardown 9), binding = NoBinding,
       options = ex_options\<lparr>whenRendered := True\<rparr>, adapter = None, notifier = 3 \<rparr>"

definition ex_apply :: effect_metadata where
  "ex_apply =
     \<lparr> effect = Returns (RStream [OnNext (Str ''x'')]), binding = BindWhole,
       options = ex_options\<lparr>apply_opt := True\<rparr>, adapter = None, notifier = 4 \<rparr>"

definition ex_injector :: "effect_metadata list \<Rightarrow> injector" where
  "ex_injector es = \<lparr> EFFECTS = es, failing = (\<lambda>c. None) \<rparr>"

definition ex_host :: "string \<rightharpoonup> jsval" where
  "ex_host = [''a'' \<mapsto> Num 0, ''b'' \<mapsto> Num 0]"

definition ex_reg :: "string \<Rightarrow> effect_options \<Rightarrow> registration" where
  "ex_reg name opts =
     \<lparr> methodName = name, reg_effect = Returns RUndefined, reg_options = opts,
       handlerType = None, reg_notifier = 0 \<rparr>"

section \<open>How the engine and the loop leave the world\<close>

lemma gates_of_append: "gates_of (xs @ ys) = gates_of xs @ gates_of ys"
  by (induction xs rule: gates_of.induct) simp_all

lemma teardowns_of_append: "teardowns_of (xs @ ys) = teardowns_of xs @ teardowns_of ys"
  by (induction xs rule: teardowns_of.induct) simp_all

lemma returned_teardowns_append:
  "returned_teardowns (xs @ ys) = returned_teardowns xs @ returned_teardowns ys"
  by (induction xs) (simp_all split: effect_fn.splits effect_result.splits)

lemma gates_of_remove1: "gates_of (remove1 (MGate e) ms) = remove1 e (gates_of ms)"
  by (induction ms rule: gates_of.induct) auto

lemma teardowns_of_remove1: "teardowns_of (remove1 (MGate e) ms) = teardowns_of ms"
  by (induction ms rule: teardowns_of.induct) auto

lemma ctl_cancel_member: "\<not> is_gate m \<Longrightarrow> ctl (cancel_member m w) = ctl w"
  by (cases m) (simp_all add: ctl_def env_def)

lemma ctl_subs_add: "\<not> is_gate m \<Longrightarrow> ctl (subs_add m w) = ctl w"
  by (cases m) (simp_all add: subs_add_def ctl_def env_def)

lemma ctl_after_write: "ctl (after_write opts w) = ctl w"
  by (simp add: after_write_def ctl_def env_def)

lemma ctl_onNext: "ctl (onNext e v w) = ctl w"
  by (simp add: onNext_def ctl_after_write split: option.splits binding_target.splits jsval.splits)
     (simp add: ctl_def env_def)

lemma ctl_subscribe_stream: "ctl (subscribe_stream e ns w) = ctl w"
  by (induction e ns w rule: subscribe_stream.induct)
     (simp_all add: ctl_subs_add ctl_onNext, simp add: ctl_def env_def)

lemma ctl_initEffect: "ctl (result_world (initEffect e w)) = ctl w"
  by (simp add: initEffect_def ctl_subs_add ctl_onNext ctl_subscribe_stream
           split: effect_fn.splits effect_result.splits)

lemma env_D:
  "env a = env b \<Longrightarrow>
     gate_replay a = gate_replay b \<and> subs_closed a = subs_closed b \<and>
     currentContext a = currentContext b \<and> constructed a = constructed b \<and>
     ctx_log a = ctx_log b"
  by (simp add: env_def)

lemma ctl_D:
  "ctl a = ctl b \<Longrightarrow>
     env a = env b \<and> invoked a = invoked b \<and> gate_subs a = gate_subs b \<and>
     console a = console b \<and> uncaught a = uncaught b"
  by (simp add: ctl_def)

lemma scope_onNext:
  "subs_members (onNext e v w) = subs_members w \<and> cancelled (onNext e v w) = cancelled w"
  by (simp add: onNext_def after_write_def split: option.splits binding_target.splits jsval.splits)

lemma closed_onNext: "subs_closed (onNext e v w) = subs_closed w"
  using ctl_D [OF ctl_onNext] env_D by blast

lemma scope_subscribe_stream:
  "\<not> subs_closed w \<Longrightarrow>
     cancelled (subscribe_stream e ns w) = cancelled w \<and>
     gates_of (subs_members (subscribe_stream e ns w)) = gates_of (subs_members w) \<and>
     teardowns_of (subs_members (subscribe_stream e ns w)) = teardowns_of (subs_members w)"
  by (induction e ns w rule: subscribe_stream.induct)
     (simp_all add: subs_add_def gates_of_append teardowns_of_append scope_onNext closed_onNext)

lemma scope_ok_invoke:
  assumes ok: "scope_ok w"
  shows "scope_ok (result_world (invoke e w))"
proof (cases "effect e")
  case (Throws x)
  with ok show ?thesis
    by (simp add: invoke_def initEffect_def scope_ok_def returned_teardowns_append)
next
  case (Returns r)
  let ?w = "w\<lparr>invoked := invoked w @ [e]\<rparr>"
  have opn: "\<not> subs_closed ?w" using ok by (simp add: scope_ok_def)
  show ?thesis
  proof (cases r)
    case RUndefined
    with Returns ok show ?thesis
      by (simp add: invoke_def initEffect_def scope_ok_def returned_teardowns_append)
  next
    case (RTeardown t)
    with Returns ok show ?thesis
      by (simp add: invoke_def initEffect_def scope_ok_def subs_add_def
            returned_teardowns_append gates_of_append teardowns_of_append)
  next
    case (RSubscription s)
    with Returns ok show ?thesis
      by (simp add: invoke_def initEffect_def scope_ok_def subs_add_def
            returned_teardowns_append gates_of_append teardowns_of_append)
  next
    case (RStream ns)
    have c: "ctl (subscribe_stream e ns ?w) = ctl ?w" by (rule ctl_subscribe_stream)
    from ctl_D [OF c] env_D [of "subscribe_stream e ns ?w" ?w]
      scope_subscribe_stream [OF opn, of e ns] Returns RStream ok
    show ?thesis
      by (simp add: invoke_def initEffect_def scope_ok_def returned_teardowns_append)
  next
    case (RPlain v)
    have c: "ctl (onNext e v ?w) = ctl ?w" by (rule ctl_onNext)
    from ctl_D [OF c] env_D [of "onNext e v ?w" ?w] scope_onNext [of e v ?w] Returns RPlain ok
    show ?thesis
      by (simp add: invoke_def initEffect_def scope_ok_def returned_teardowns_append)
  qed
qed

lemma ctl_invoke:
  "ctl (result_world (invoke e w)) = ctl (w\<lparr>invoked := invoked w @ [e]\<rparr>)"
  by (simp add: invoke_def ctl_initEffect)

lemma invoke_fields:
  "env (result_world (invoke e w)) = env w"
  "invoked (result_world (invoke e w)) = invoked w @ [e]"
  "gate_subs (result_world (invoke e w)) = gate_subs w"
  "console (result_world (invoke e w)) = console w"
  using ctl_D [OF ctl_invoke, of e w] by (simp_all add: env_def)

lemma invoke_Inl:
  "invoke e w = Inl (x, w') \<longleftrightarrow> effect e = Throws x \<and> w' = w\<lparr>invoked := invoked w @ [e]\<rparr>"
  by (auto simp: invoke_def initEffect_def split: effect_fn.splits effect_result.splits)

lemma invoke_Inr: "\<not> throws e \<Longrightarrow> \<exists>w'. invoke e w = Inr w'"
  by (simp add: invoke_def initEffect_def throws_def split: effect_fn.splits effect_result.splits)

lemma invoke_Inr_fields:
  assumes "invoke e w = Inr w'"
  shows "env w' = env w" "invoked w' = invoked w @ [e]" "gate_subs w' = gate_subs w"
    "console w' = console w"
  using invoke_fields [of e w] assms by simp_all

lemma gate_handle_env: "env (gate_handle n e w) = env w"
proof (cases n)
  case (OnNext u)
  show ?thesis
  proof (cases "invoke e w")
    case (Inl a)
    then obtain x w' where "invoke e w = Inl (x, w')" by (cases a) simp
    with invoke_fields(1) [of e w] OnNext show ?thesis by (simp add: env_def)
  next
    case (Inr w')
    with invoke_fields(1) [of e w] OnNext show ?thesis by simp
  qed
qed (simp_all add: env_def)

lemma gate_handle_gate_subs: "gate_subs (gate_handle n e w) = gate_subs w"
proof (cases n)
  case (OnNext u)
  show ?thesis
  proof (cases "invoke e w")
    case (Inl a)
    then obtain x w' where "invoke e w = Inl (x, w')" by (cases a) simp
    with invoke_fields(3) [of e w] OnNext show ?thesis by simp
  next
    case (Inr w')
    with invoke_fields(3) [of e w] OnNext show ?thesis by simp
  qed
qed simp_all

lemma gate_handle_invoked:
  "invoked (gate_handle n e w) = invoked w @ (case n of OnNext u \<Rightarrow> [e] | _ \<Rightarrow> [])"
proof (cases n)
  case (OnNext u)
  show ?thesis
  proof (cases "invoke e w")
    case (Inl a)
    then obtain x w' where "invoke e w = Inl (x, w')" by (cases a) simp
    with invoke_fields(2) [of e w] OnNext show ?thesis by simp
  next
    case (Inr w')
    with invoke_fields(2) [of e w] OnNext show ?thesis by simp
  qed
qed simp_all

lemma gate_handle_console:
  "console (gate_handle n e w) = console w @ (case n of OnError x \<Rightarrow> [x] | _ \<Rightarrow> [])"
proof (cases n)
  case (OnNext u)
  show ?thesis
  proof (cases "invoke e w")
    case (Inl a)
    then obtain x w' where "invoke e w = Inl (x, w')" by (cases a) simp
    with invoke_fields(4) [of e w] OnNext show ?thesis by simp
  next
    case (Inr w')
    with invoke_fields(4) [of e w] OnNext show ?thesis by simp
  qed
qed simp_all

lemma scope_ok_gate_handle: "scope_ok w \<Longrightarrow> scope_ok (gate_handle n e w)"
proof (cases n)
  case (OnNext u)
  assume ok: "scope_ok w"
  show ?thesis
  proof (cases "invoke e w")
    case (Inl a)
    then obtain x w' where "invoke e w = Inl (x, w')" by (cases a) simp
    with scope_ok_invoke [OF ok, of e] OnNext show ?thesis by (simp add: scope_ok_def)
  next
    case (Inr w')
    with scope_ok_invoke [OF ok, of e] OnNext show ?thesis by simp
  qed
qed (simp_all add: scope_ok_def)

lemma run_gated_env: "env (run_gated e w) = env w"
  by (cases "gate_replay w")
     (simp_all add: run_gated_def gate_handle_env subs_add_def, simp add: env_def)

lemma scope_ok_run_gated: "scope_ok w \<Longrightarrow> scope_ok (run_gated e w)"
  by (cases "gate_replay w")
     (simp_all add: run_gated_def scope_ok_gate_handle,
      simp add: scope_ok_def subs_add_def gates_of_append teardowns_of_append)

lemma run_gated_pending:
  assumes "gate_replay w = []" "\<not> subs_closed w"
  shows "invoked (run_gated e w) = invoked w" "gate_subs (run_gated e w) = gate_subs w @ [e]"
    "console (run_gated e w) = console w"
  using assms by (simp_all add: run_gated_def subs_add_def)

lemma run_gated_replay:
  assumes "gate_replay w = n # ns"
  shows "invoked (run_gated e w) = invoked w @ (case n of OnNext u \<Rightarrow> [e] | _ \<Rightarrow> [])"
    "gate_subs (run_gated e w) = gate_subs w"
    "console (run_gated e w) = console w @ (case n of OnError x \<Rightarrow> [x] | _ \<Rightarrow> [])"
  using assms
  by (simp_all add: run_gated_def gate_handle_invoked gate_handle_gate_subs gate_handle_console)

lemma run_env: "env (result_world (run es w)) = env w"
proof (induction es arbitrary: w)
  case Nil
  show ?case by simp
next
  case (Cons e es)
  show ?case
  proof (cases "whenRendered (options e)")
    case True
    then show ?thesis using Cons [of "run_gated e w"] by (simp add: run_gated_env)
  next
    case False
    show ?thesis
    proof (cases "invoke e w")
      case (Inl a)
      then obtain x w' where "invoke e w = Inl (x, w')" by (cases a) simp
      with invoke_fields(1) [of e w] False show ?thesis by simp
    next
      case (Inr w')
      with invoke_fields(1) [of e w] False Cons [of w'] show ?thesis by simp
    qed
  qed
qed

lemma scope_ok_run: "scope_ok w \<Longrightarrow> scope_ok (result_world (run es w))"
proof (induction es arbitrary: w)
  case Nil
  then show ?case by simp
next
  case (Cons e es)
  show ?case
  proof (cases "whenRendered (options e)")
    case True
    then show ?thesis using Cons.IH [OF scope_ok_run_gated [OF Cons.prems, of e]] by simp
  next
    case False
    show ?thesis
    proof (cases "invoke e w")
      case (Inl a)
      then obtain x w' where "invoke e w = Inl (x, w')" by (cases a) simp
      with scope_ok_invoke [OF Cons.prems, of e] False show ?thesis by simp
    next
      case (Inr w')
      with scope_ok_invoke [OF Cons.prems, of e] False Cons.IH [of w'] show ?thesis by simp
    qed
  qed
qed

lemma run_ungated:
  "\<forall>e\<in>set es. \<not> gated e \<Longrightarrow> run es w = Inr w' \<Longrightarrow> invoked w' = invoked w @ es"
proof (induction es arbitrary: w)
  case Nil
  then show ?case by simp
next
  case (Cons e es)
  from Cons.prems obtain w1 where 1: "invoke e w = Inr w1" and 2: "run es w1 = Inr w'"
    by (auto simp: gated_def split: sum.splits)
  from Cons.IH [OF _ 2] Cons.prems(1) invoke_Inr_fields(2) [OF 1] show ?case by simp
qed

lemma run_returns:
  "\<forall>e\<in>set es. \<not> gated e \<longrightarrow> \<not> throws e \<Longrightarrow> \<exists>w'. run es w = Inr w'"
proof (induction es arbitrary: w)
  case Nil
  show ?case by simp
next
  case (Cons e es)
  show ?case
  proof (cases "gated e")
    case True
    with Cons show ?thesis by (simp add: gated_def)
  next
    case False
    with Cons.prems invoke_Inr [of e w] obtain w1 where "invoke e w = Inr w1" by auto
    with False Cons.IH [of w1] Cons.prems show ?thesis by (simp add: gated_def)
  qed
qed

lemma run_throws:
  assumes "\<forall>e\<in>set (pre @ e # post). \<not> gated e" "\<forall>e\<in>set pre. \<not> throws e" "effect e = Throws x"
  shows "\<exists>w'. run (pre @ e # post) w = Inl (x, w') \<and> invoked w' = invoked w @ pre @ [e]"
  using assms
proof (induction pre arbitrary: w)
  case Nil
  then show ?case by (simp add: gated_def invoke_def initEffect_def)
next
  case (Cons a pre)
  from Cons.prems invoke_Inr [of a w] obtain w1 where 1: "invoke a w = Inr w1" by auto
  from Cons.IH [of w1] Cons.prems obtain w' where
    "run (pre @ e # post) w1 = Inl (x, w')" "invoked w' = invoked w1 @ pre @ [e]" by auto
  with 1 invoke_Inr_fields(2) [OF 1] Cons.prems(1) show ?case by (simp add: gated_def)
qed

lemma run_pending:
  assumes "gate_replay w = []" "\<not> subs_closed w" "run es w = Inr w'"
  shows "invoked w' = invoked w @ filter (\<lambda>e. \<not> gated e) es \<and>
         gate_subs w' = gate_subs w @ filter gated es \<and> console w' = console w"
  using assms
proof (induction es arbitrary: w)
  case Nil
  then show ?case by simp
next
  case (Cons e es)
  show ?case
  proof (cases "gated e")
    case True
    let ?w = "run_gated e w"
    from env_D [OF run_gated_env [of e w]] Cons.prems
    have "gate_replay ?w = []" "\<not> subs_closed ?w" by simp_all
    moreover from True Cons.prems have "run es ?w = Inr w'" by (simp add: gated_def)
    ultimately show ?thesis
      using Cons.IH [of ?w] run_gated_pending [OF Cons.prems(1,2), of e] True by simp
  next
    case False
    with Cons.prems obtain w1 where 1: "invoke e w = Inr w1" and 2: "run es w1 = Inr w'"
      by (auto simp: gated_def split: sum.splits)
    from env_D [of w1 w] invoke_Inr_fields(1) [OF 1] Cons.prems
    have "gate_replay w1 = []" "\<not> subs_closed w1" by simp_all
    with Cons.IH [of w1] 2 invoke_Inr_fields [OF 1] False show ?thesis by simp
  qed
qed

lemma run_replay:
  assumes "gate_replay w = n # ns" "run es w = Inr w'"
  shows "invoked w' = invoked w @ (case n of OnNext u \<Rightarrow> es | _ \<Rightarrow> filter (\<lambda>e. \<not> gated e) es) \<and>
         gate_subs w' = gate_subs w \<and>
         console w' = console w @ (case n of OnError x \<Rightarrow> map (\<lambda>e. x) (filter gated es) | _ \<Rightarrow> [])"
  using assms
proof (induction es arbitrary: w)
  case Nil
  then show ?case by (simp split: notif.splits)
next
  case (Cons e es)
  show ?case
  proof (cases "gated e")
    case True
    let ?w = "run_gated e w"
    from env_D [OF run_gated_env [of e w]] Cons.prems
    have "gate_replay ?w = n # ns" by simp
    moreover from True Cons.prems have "run es ?w = Inr w'" by (simp add: gated_def)
    ultimately show ?thesis
      using Cons.IH [of ?w] run_gated_replay [OF Cons.prems(1), of e] True
      by (simp split: notif.splits)
  next
    case False
    with Cons.prems obtain w1 where 1: "invoke e w = Inr w1" and 2: "run es w1 = Inr w'"
      by (auto simp: gated_def split: sum.splits)
    from env_D [of w1 w] invoke_Inr_fields(1) [OF 1] Cons.prems
    have "gate_replay w1 = n # ns" by simp
    with Cons.IH [of w1] 2 invoke_Inr_fields [OF 1] False show ?thesis
      by (simp split: notif.splits)
  qed
qed

lemma scope_ok_gate_close: "scope_ok w \<Longrightarrow> scope_ok (gate_close e w)"
  by (simp add: scope_ok_def gate_close_def gates_of_remove1 teardowns_of_remove1)

lemma scope_ok_gate_notify: "scope_ok w \<Longrightarrow> scope_ok (gate_notify n e w)"
  by (simp add: gate_notify_def scope_ok_gate_close scope_ok_gate_handle)

lemma scope_ok_fold_notify: "scope_ok w \<Longrightarrow> scope_ok (fold (gate_notify n) es w)"
  by (induction es arbitrary: w) (simp_all add: scope_ok_gate_notify)

lemma scope_ok_gate_deliver: "scope_ok w \<Longrightarrow> scope_ok (gate_deliver n w)"
  by (simp add: gate_deliver_def scope_ok_fold_notify)

lemma scope_ok_gate_deliver_all: "scope_ok w \<Longrightarrow> scope_ok (gate_deliver_all ns w)"
  unfolding gate_deliver_all_def
  by (induction ns arbitrary: w) (simp_all add: scope_ok_gate_deliver)

lemma gate_notify_head:
  assumes "gate_subs w = e # es"
  shows "gate_subs (gate_notify n e w) = es"
    "invoked (gate_notify n e w) = invoked w @ (case n of OnNext u \<Rightarrow> [e] | _ \<Rightarrow> [])"
    "console (gate_notify n e w) = console w @ (case n of OnError x \<Rightarrow> [x] | _ \<Rightarrow> [])"
    "env (gate_notify n e w) = env w"
  using assms gate_handle_env [of n e w]
  by (simp_all add: gate_notify_def gate_close_def gate_handle_gate_subs gate_handle_invoked
        gate_handle_console env_def)

lemma fold_notify:
  "gate_subs w = es \<Longrightarrow>
     gate_subs (fold (gate_notify n) es w) = [] \<and>
     invoked (fold (gate_notify n) es w) = invoked w @ (case n of OnNext u \<Rightarrow> es | _ \<Rightarrow> []) \<and>
     console (fold (gate_notify n) es w) =
       console w @ (case n of OnError x \<Rightarrow> map (\<lambda>e. x) es | _ \<Rightarrow> []) \<and>
     env (fold (gate_notify n) es w) = env w"
proof (induction es arbitrary: w)
  case Nil
  then show ?case by (simp split: notif.splits)
next
  case (Cons e es)
  from gate_notify_head [OF Cons.prems, of n] Cons.IH [of "gate_notify n e w"]
  show ?case by (simp split: notif.splits)
qed

lemma gate_deliver_fields:
  "gate_subs (gate_deliver n w) = []"
  "invoked (gate_deliver n w) = invoked w @ (case n of OnNext u \<Rightarrow> gate_subs w | _ \<Rightarrow> [])"
  "console (gate_deliver n w) =
     console w @ (case n of OnError x \<Rightarrow> map (\<lambda>e. x) (gate_subs w) | _ \<Rightarrow> [])"
  "env (gate_deliver n w) = env w"
  using fold_notify [of w "gate_subs w" n] by (simp_all add: gate_deliver_def)

lemma gate_deliver_idle: "gate_subs w = [] \<Longrightarrow> gate_deliver n w = w"
  by (simp add: gate_deliver_def)

lemma gate_deliver_all_idle: "gate_subs w = [] \<Longrightarrow> gate_deliver_all ns w = w"
  unfolding gate_deliver_all_def
  by (induction ns) (simp_all add: gate_deliver_idle)

lemma fold_cancel_fields:
  "cancelled (fold cancel_member ms w) = cancelled w @ ms \<and>
   invoked (fold cancel_member ms w) = invoked w \<and>
   subs_closed (fold cancel_member ms w) = subs_closed w \<and>
   subs_members (fold cancel_member ms w) = subs_members w \<and>
   props (fold cancel_member ms w) = props w \<and>
   console (fold cancel_member ms w) = console w"
proof (induction ms arbitrary: w)
  case Nil
  show ?case by simp
next
  case (Cons m ms)
  show ?case using Cons [of "cancel_member m w"] by (cases m) simp_all
qed

lemma gate_subs_cancel_member:
  "gates_of (m # ms) = gate_subs w \<Longrightarrow> gates_of ms = gate_subs (cancel_member m w)"
proof (cases m)
  case (MGate e)
  assume "gates_of (m # ms) = gate_subs w"
  then have "gate_subs w = e # gates_of ms" unfolding MGate gates_of.simps by (rule sym)
  then show ?thesis unfolding MGate cancel_member.simps by simp
qed simp_all

lemma fold_cancel_gate_subs:
  "gates_of ms = gate_subs w \<Longrightarrow> gate_subs (fold cancel_member ms w) = []"
proof (induction ms arbitrary: w)
  case Nil
  then show ?case by simp
next
  case (Cons m ms)
  from Cons.IH [OF gate_subs_cancel_member [OF Cons.prems]] show ?case by simp
qed

lemma ngOnDestroy_closed: "subs_closed (ngOnDestroy w)"
  by (simp add: ngOnDestroy_def subs_unsubscribe_def fold_cancel_fields)

lemma ngOnDestroy_when_closed: "subs_closed w \<Longrightarrow> ngOnDestroy w = w"
  by (simp add: ngOnDestroy_def subs_unsubscribe_def)

lemma ngOnDestroy_twice: "ngOnDestroy (ngOnDestroy w) = ngOnDestroy w"
  by (rule ngOnDestroy_when_closed [OF ngOnDestroy_closed])

lemma ngOnDestroy_fields:
  assumes "scope_ok w"
  shows "cancelled (ngOnDestroy w) = subs_members w" "gate_subs (ngOnDestroy w) = []"
    "invoked (ngOnDestroy w) = invoked w" "subs_members (ngOnDestroy w) = []"
proof -
  let ?w = "w\<lparr>subs_closed := True, subs_members := []\<rparr>"
  from assms have opn: "\<not> subs_closed w" and c: "cancelled w = []"
    and g: "gates_of (subs_members w) = gate_subs ?w" by (simp_all add: scope_ok_def)
  have d: "ngOnDestroy w = fold cancel_member (subs_members w) ?w"
    using opn by (simp add: ngOnDestroy_def subs_unsubscribe_def)
  show "cancelled (ngOnDestroy w) = subs_members w" by (simp add: d fold_cancel_fields c)
  show "gate_subs (ngOnDestroy w) = []" unfolding d by (rule fold_cancel_gate_subs [OF g])
  show "invoked (ngOnDestroy w) = invoked w" by (simp add: d fold_cancel_fields)
  show "subs_members (ngOnDestroy w) = []" by (simp add: d fold_cancel_fields)
qed

lemma filter_remove1_gate:
  "filter (\<lambda>m. \<not> is_gate m) (remove1 (MGate e) ms) = filter (\<lambda>m. \<not> is_gate m) ms"
  by (induction ms) auto

lemma filter_no_gates: "gates_of ms = [] \<Longrightarrow> filter (\<lambda>m. \<not> is_gate m) ms = ms"
  by (induction ms rule: gates_of.induct) simp_all

lemma fold_notify_error:
  "gate_subs w = es \<Longrightarrow> gates_of (subs_members w) = es \<Longrightarrow>
     fold (gate_notify (OnError x)) es w =
       w\<lparr>gate_subs := [], subs_members := filter (\<lambda>m. \<not> is_gate m) (subs_members w),
         console := console w @ map (\<lambda>e. x) es\<rparr>"
proof (induction es arbitrary: w)
  case Nil
  then show ?case by (simp add: filter_no_gates)
next
  case (Cons e es)
  let ?w = "gate_notify (OnError x) e w"
  have w1: "?w = w\<lparr>gate_subs := es, subs_members := remove1 (MGate e) (subs_members w),
                    console := console w @ [x]\<rparr>"
    using Cons.prems by (simp add: gate_notify_def gate_close_def)
  have "gate_subs ?w = es" "gates_of (subs_members ?w) = es"
    using Cons.prems by (simp_all add: w1 gates_of_remove1)
  from Cons.IH [OF this] show ?case by (simp add: w1 filter_remove1_gate)
qed


lemma InitEffects_new_fields:
  "ctx_log (result_world (InitEffects_new es w)) = ctx_log w"
  "currentContext (result_world (InitEffects_new es w)) = currentContext w"
  "constructed (result_world (InitEffects_new es w)) = constructed w"
  "gate_replay (result_world (InitEffects_new es w)) = gate_replay w"
  using env_D [OF run_env [of es "w\<lparr>subs_closed := False, subs_members := []\<rparr>"]]
  by (simp_all add: InitEffects_new_def)

lemma InitEffects_new_ungated:
  "\<forall>e\<in>set es. \<not> gated e \<Longrightarrow> InitEffects_new es w = Inr w' \<Longrightarrow> invoked w' = invoked w @ es"
  using run_ungated [of es "w\<lparr>subs_closed := False, subs_members := []\<rparr>" w']
  by (simp add: InitEffects_new_def)

lemma InitEffects_new_returns:
  "\<forall>e\<in>set es. \<not> gated e \<longrightarrow> \<not> throws e \<Longrightarrow> \<exists>w'. InitEffects_new es w = Inr w'"
  by (simp add: InitEffects_new_def run_returns)

lemma injector_get_log:
  assumes "injector_get ir t w = Inr w'"
  shows "ctx_log w' = ctx_log w \<and> currentContext w' = currentContext w"
proof (cases t)
  case InitEffectsT
  show ?thesis
  proof (cases "constructed w")
    case True
    with assms InitEffectsT show ?thesis by (simp add: injector_get_def)
  next
    case False
    with assms InitEffectsT obtain w1 where 1: "InitEffects_new (EFFECTS ir) w = Inr w1"
      and 2: "w' = w1\<lparr>constructed := True\<rparr>"
      by (auto simp: injector_get_def split: sum.splits)
    from InitEffects_new_fields(1,2) [of "EFFECTS ir" w] 1 2 show ?thesis by simp
  qed
next
  case (OtherT c)
  with assms show ?thesis by (auto simp: injector_get_def split: option.splits)
qed

lemma injector_get_constructed:
  assumes "injector_get ir t w = Inr w'" "constructed w"
  shows "invoked w' = invoked w \<and> constructed w'"
  using assms by (cases t) (auto simp: injector_get_def split: option.splits)

lemma injector_get_other:
  assumes "injector_get ir (OtherT c) w = Inr w'"
  shows "w' = w"
  using assms by (auto simp: injector_get_def split: option.splits)

lemma injector_get_first:
  assumes "injector_get ir InitEffectsT w = Inr w'" "\<not> constructed w"
    "\<forall>e\<in>set (EFFECTS ir). \<not> gated e"
  shows "invoked w' = invoked w @ EFFECTS ir \<and> constructed w'"
proof -
  from assms(1,2) obtain w1 where 1: "InitEffects_new (EFFECTS ir) w = Inr w1"
    and 2: "w' = w1\<lparr>constructed := True\<rparr>"
    by (auto simp: injector_get_def split: sum.splits)
  from InitEffects_new_ungated [OF assms(3) 1] 2 show ?thesis by simp
qed

lemma injector_get_returns:
  assumes "\<forall>e\<in>set (EFFECTS ir). \<not> gated e \<longrightarrow> \<not> throws e" "\<forall>c. failing ir c = None"
  shows "\<exists>w'. injector_get ir t w = Inr w'"
proof (cases t)
  case InitEffectsT
  from InitEffects_new_returns [OF assms(1), of w] obtain w1
    where "InitEffects_new (EFFECTS ir) w = Inr w1" by blast
  with InitEffectsT show ?thesis by (simp add: injector_get_def)
next
  case (OtherT c)
  with assms(2) show ?thesis by (simp add: injector_get_def)
qed

lemma forEach_get_log:
  "forEach_get ir ts w = Inr w' \<Longrightarrow>
     ctx_log w' = ctx_log w @ map (\<lambda>t. Resolve t (currentContext w)) ts \<and> currentContext w' = currentContext w"
proof (induction ts arbitrary: w)
  case Nil
  then show ?case by simp
next
  case (Cons t ts)
  let ?w = "w\<lparr>ctx_log := ctx_log w @ [Resolve t (currentContext w)]\<rparr>"
  from Cons.prems obtain w1 where 1: "injector_get ir t ?w = Inr w1"
    and 2: "forEach_get ir ts w1 = Inr w'" by (auto split: sum.splits)
  from injector_get_log [OF 1] Cons.IH [OF 2] show ?case by simp
qed

lemma forEach_get_constructed:
  "constructed w \<Longrightarrow> forEach_get ir ts w = Inr w' \<Longrightarrow> invoked w' = invoked w"
proof (induction ts arbitrary: w)
  case Nil
  then show ?case by simp
next
  case (Cons t ts)
  let ?w = "w\<lparr>ctx_log := ctx_log w @ [Resolve t (currentContext w)]\<rparr>"
  from Cons.prems obtain w1 where 1: "injector_get ir t ?w = Inr w1"
    and 2: "forEach_get ir ts w1 = Inr w'" by (auto split: sum.splits)
  from Cons.prems(1) have "constructed ?w" by simp
  from injector_get_constructed [OF 1 this] Cons.IH [OF _ 2] show ?case by simp
qed

lemma forEach_get_invoked:
  "\<not> constructed w \<Longrightarrow> InitEffectsT \<in> set ts \<Longrightarrow> \<forall>e\<in>set (EFFECTS ir). \<not> gated e \<Longrightarrow>
     forEach_get ir ts w = Inr w' \<Longrightarrow> invoked w' = invoked w @ EFFECTS ir"
proof (induction ts arbitrary: w)
  case Nil
  then show ?case by simp
next
  case (Cons t ts)
  let ?w = "w\<lparr>ctx_log := ctx_log w @ [Resolve t (currentContext w)]\<rparr>"
  from Cons.prems(4) obtain w1 where 1: "injector_get ir t ?w = Inr w1"
    and 2: "forEach_get ir ts w1 = Inr w'" by (auto split: sum.splits)
  from Cons.prems(1) have nc: "\<not> constructed ?w" by simp
  show ?case
  proof (cases t)
    case InitEffectsT
    from injector_get_first [of ir ?w w1] 1 nc Cons.prems(3) InitEffectsT
    have "invoked w1 = invoked w @ EFFECTS ir" "constructed w1" by simp_all
    with forEach_get_constructed [OF _ 2] show ?thesis by simp
  next
    case (OtherT c)
    from injector_get_other [of ir c ?w w1] 1 OtherT have w1: "w1 = ?w" by simp
    from Cons.prems(2) OtherT have "InitEffectsT \<in> set ts" by simp
    from Cons.IH [OF _ this Cons.prems(3) 2] nc w1 show ?thesis by simp
  qed
qed

lemma forEach_get_returns:
  assumes "\<forall>e\<in>set (EFFECTS ir). \<not> gated e \<longrightarrow> \<not> throws e" "\<forall>c. failing ir c = None"
  shows "\<exists>w'. forEach_get ir ts w = Inr w'"
proof (induction ts arbitrary: w)
  case Nil
  show ?case by simp
next
  case (Cons t ts)
  from injector_get_returns [OF assms] obtain w1
    where "injector_get ir t (w\<lparr>ctx_log := ctx_log w @ [Resolve t (currentContext w)]\<rparr>) = Inr w1" by blast
  with Cons [of w1] show ?case by simp
qed

lemma forEach_get_throws:
  assumes ug: "\<forall>a\<in>set (pre @ e # post). \<not> gated a"
    and nt: "\<forall>a\<in>set pre. \<not> throws a"
    and th: "effect e = Throws x"
    and ef: "EFFECTS ir = pre @ e # post"
    and nf: "\<forall>c. failing ir c = None"
  shows "\<not> constructed w \<Longrightarrow> InitEffectsT \<in> set ts \<Longrightarrow>
           \<exists>w'. forEach_get ir ts w = Inl (x, w') \<and> invoked w' = invoked w @ pre @ [e]"
proof (induction ts arbitrary: w)
  case Nil
  then show ?case by simp
next
  case (Cons t ts)
  let ?w = "w\<lparr>ctx_log := ctx_log w @ [Resolve t (currentContext w)]\<rparr>"
  from Cons.prems(1) have nc: "\<not> constructed ?w" by simp
  show ?case
  proof (cases t)
    case InitEffectsT
    let ?v = "?w\<lparr>subs_closed := False, subs_members := []\<rparr>"
    from run_throws [OF ug nt th, of ?v] obtain w' where
      r: "run (pre @ e # post) ?v = Inl (x, w')" and i: "invoked w' = invoked ?v @ pre @ [e]"
      by blast
    from r nc have "injector_get ir InitEffectsT ?w = Inl (x, w')"
      by (simp add: injector_get_def InitEffects_new_def ef)
    with InitEffectsT i show ?thesis by simp
  next
    case (OtherT c)
    from nf have g: "injector_get ir (OtherT c) ?w = Inr ?w" by (simp add: injector_get_def)
    from Cons.prems(2) OtherT have "InitEffectsT \<in> set ts" by simp
    from Cons.IH [OF nc this] obtain w' where
      "forEach_get ir ts ?w = Inl (x, w')" "invoked w' = invoked ?w @ pre @ [e]" by blast
    with g OtherT show ?thesis by simp
  qed
qed

lemma write_all_eq: "write_all kvs m = m ++ map_of (rev kvs)"
  by (induction kvs arbitrary: m) (auto simp: map_add_def fun_eq_iff split: option.splits)

lemma resolve_fst:
  "fst (resolve strict host rs) = map (\<lambda>r. BindWithApply (methodName r)) (filter conflicting rs)"
  by (induction rs)
     (auto simp: resolve_one_def resolve_binding_def conflicting_def split: option.splits)

lemma resolve_snd:
  "map Inr (snd (resolve strict host rs)) =
     map (resolve_one strict host) (filter (\<lambda>r. \<not> conflicting r) rs)"
  by (induction rs)
     (auto simp: resolve_one_def resolve_binding_def conflicting_def split: option.splits)

lemmas engine_defs =
  InitEffects_new_def invoke_def initEffect_def run_gated_def subs_add_def onNext_def
  after_write_def new_world_def gated_def throws_def

lemma scope_ok_fresh: "scope_ok ((new_world p r)\<lparr>subs_closed := False, subs_members := []\<rparr>)"
  by (simp add: scope_ok_def new_world_def)

lemma scope_ok_constructed: "scope_ok (result_world (InitEffects_new es (new_world p r)))"
  unfolding InitEffects_new_def by (rule scope_ok_run [OF scope_ok_fresh])

lemma scope_ok_live_host: "scope_ok (live_host es p r ns)"
  unfolding live_host_def by (rule scope_ok_gate_deliver_all [OF scope_ok_constructed])

lemma constructed_pending:
  assumes "InitEffects_new es (new_world p []) = Inr w1"
  shows "invoked w1 = filter (\<lambda>e. \<not> gated e) es" "gate_subs w1 = filter gated es"
    "console w1 = []" "scope_ok w1"
proof -
  let ?w = "(new_world p [])\<lparr>subs_closed := False, subs_members := []\<rparr>"
  have "gate_replay ?w = []" "\<not> subs_closed ?w" by (simp_all add: new_world_def)
  from run_pending [OF this, of es w1] assms
  show "invoked w1 = filter (\<lambda>e. \<not> gated e) es" "gate_subs w1 = filter gated es"
    "console w1 = []" by (simp_all add: InitEffects_new_def new_world_def)
  from scope_ok_constructed [of es p "[]"] assms show "scope_ok w1" by simp
qed

lemma resolve_one_apply:
  assumes "resolve_one strict host r = Inr e" "apply_opt (reg_options r)"
  shows "binding e = BindWhole \<and> adapter e = handlerType r \<and> options e = reg_options r"
  using assms
  by (auto simp: resolve_one_def resolve_binding_def split: option.splits if_splits)

lemma onNext_handler:
  "adapter e = Some h \<Longrightarrow> onNext e v w = w\<lparr>handler_log := handler_log w @ [(h, v)]\<rparr>"
  by (simp add: onNext_def)

lemma onNext_whole_object:
  assumes "binding e = BindWhole" "adapter e = None"
  shows "props (onNext e (Obj kvs) w) = props w ++ map_of (rev kvs)"
    "error_channel (onNext e (Obj kvs) w) = error_channel w"
  using assms by (simp_all add: onNext_def after_write_def write_all_eq)

lemma onNext_whole_scalar:
  assumes "binding e = BindWhole" "adapter e = None" "\<forall>kvs. v \<noteq> Obj kvs"
  shows "props (onNext e v w) = props w"
    "error_channel (onNext e v w) = error_channel w @ [ApplyNonObject v]"
  using assms by (cases v; simp add: onNext_def)+

section \<open>The properties\<close>

text \<open>
  C1.  A host whose \<^verbatim>\<open>EFFECTS\<close> entries all have \<^verbatim>\<open>whenRendered\<close> unset: when
  \<^verbatim>\<open>connect\<close> returns, \<^verbatim>\<open>initEffect\<close> has been called for every entry, once each and
  in the order of the array, inside that call; the same holds for \<^verbatim>\<open>run\<close> alone.  The
  call does return when no effect function throws and every initializer resolves.
\<close>

theorem connect_runs_effects_in_order:
  assumes "\<forall>e\<in>set (EFFECTS ir). \<not> whenRendered (options e)"
    and "InitEffectsT \<in> set initializers"
    and "\<not> constructed w"
  shows "(\<forall>w'. connect initializers ir context w = Inr w' \<longrightarrow>
            invoked w' = invoked w @ EFFECTS ir) \<and>
         (\<forall>w'. run (EFFECTS ir) w = Inr w' \<longrightarrow> invoked w' = invoked w @ EFFECTS ir) \<and>
         ((\<forall>e\<in>set (EFFECTS ir). \<not> throws e) \<and> (\<forall>c. failing ir c = None) \<longrightarrow>
            (\<exists>w'. connect initializers ir context w = Inr w'))"
proof (intro conjI allI impI)
  from assms(1) have ug: "\<forall>e\<in>set (EFFECTS ir). \<not> gated e" by (simp add: gated_def)
  let ?w = "w\<lparr>currentContext := insert context (currentContext w),
              ctx_log := ctx_log w @ [CtxAdd context]\<rparr>"
  {
    fix w' assume "connect initializers ir context w = Inr w'"
    then obtain w1 where 1: "forEach_get ir initializers ?w = Inr w1"
      and 2: "w' = w1\<lparr>currentContext := {}, ctx_log := ctx_log w1 @ [CtxClear]\<rparr>"
      by (auto simp: connect_def split: sum.splits)
    from assms(3) have "\<not> constructed ?w" by simp
    from forEach_get_invoked [OF this assms(2) ug 1] 2
    show "invoked w' = invoked w @ EFFECTS ir" by simp
  }
  {
    fix w' assume "run (EFFECTS ir) w = Inr w'"
    from run_ungated [OF ug this] show "invoked w' = invoked w @ EFFECTS ir" .
  }
  {
    assume "(\<forall>e\<in>set (EFFECTS ir). \<not> throws e) \<and> (\<forall>c. failing ir c = None)"
    then have "\<forall>e\<in>set (EFFECTS ir). \<not> gated e \<longrightarrow> \<not> throws e" "\<forall>c. failing ir c = None"
      by simp_all
    from forEach_get_returns [OF this, of initializers ?w]
    show "\<exists>w'. connect initializers ir context w = Inr w'"
      by (auto simp: connect_def)
  }
qed

text \<open>An instance: two entries, \<^verbatim>\<open>InitEffects\<close> second among the initializers.\<close>

theorem connect_runs_effects_in_order_witness:
  "\<not> whenRendered (options ex_void) \<and> \<not> whenRendered (options ex_teardown) \<and>
   \<not> throws ex_void \<and> \<not> throws ex_teardown \<and>
   InitEffectsT \<in> set [OtherT ''HostRef'', InitEffectsT] \<and>
   \<not> constructed (new_world ex_host []) \<and>
   (\<exists>w'. connect [OtherT ''HostRef'', InitEffectsT] (ex_injector [ex_void, ex_teardown]) 1
            (new_world ex_host []) = Inr w' \<and>
         invoked w' = [ex_void, ex_teardown])"
proof -
  let ?ir = "ex_injector [ex_void, ex_teardown]"
  let ?ts = "[OtherT ''HostRef'', InitEffectsT]"
  have h1: "\<forall>e\<in>set (EFFECTS ?ir). \<not> whenRendered (options e)"
    by (simp add: ex_options_def ex_void_def ex_teardown_def ex_injector_def ex_host_def)
  have h2: "InitEffectsT \<in> set ?ts" by simp
  have h3: "\<not> constructed (new_world ex_host [])" by (simp add: new_world_def)
  have h4: "(\<forall>e\<in>set (EFFECTS ?ir). \<not> throws e) \<and> (\<forall>c. failing ?ir c = None)"
    by (simp add: ex_options_def ex_void_def ex_teardown_def ex_injector_def ex_host_def throws_def)
  from connect_runs_effects_in_order [OF h1 h2 h3, of 1] h4
  obtain w' where "connect ?ts ?ir 1 (new_world ex_host []) = Inr w'"
    "invoked w' = invoked (new_world ex_host []) @ EFFECTS ?ir" by blast
  then have "\<exists>w'. connect ?ts ?ir 1 (new_world ex_host []) = Inr w' \<and>
                  invoked w' = [ex_void, ex_teardown]"
    by (simp add: new_world_def ex_injector_def)
  moreover have "\<not> whenRendered (options ex_void) \<and> \<not> whenRendered (options ex_teardown) \<and>
      \<not> throws ex_void \<and> \<not> throws ex_teardown"
    by (simp add: ex_options_def ex_void_def ex_teardown_def ex_injector_def ex_host_def throws_def)
  ultimately show ?thesis using h2 h3 by blast
qed

text \<open>
  C2.  A host constructed while the render stream has nothing to replay: when the
  constructor returns only the entries without \<^verbatim>\<open>whenRendered\<close> have been invoked and
  every gated entry is subscribed; the first value of the render stream invokes every
  gated entry, once each and in order; whatever the stream delivers afterwards invokes
  nothing more.  A host constructed when the render stream already replays its value has
  every entry invoked once, in order, by the constructor, and later notifications invoke
  nothing more.
\<close>

theorem whenRendered_runs_once_after_render:
  "(\<forall>w1. InitEffects_new effects (new_world p []) = Inr w1 \<longrightarrow>
      invoked w1 = filter (\<lambda>e. \<not> gated e) effects \<and>
      gate_subs w1 = filter gated effects \<and>
      invoked (gate_deliver (OnNext ()) w1) = invoked w1 @ filter gated effects \<and>
      (\<forall>ns. invoked (gate_deliver_all ns (gate_deliver (OnNext ()) w1)) =
              invoked w1 @ filter gated effects)) \<and>
   (\<forall>w2. InitEffects_new effects (new_world p (OnNext () # r)) = Inr w2 \<longrightarrow>
      invoked w2 = effects \<and> gate_subs w2 = [] \<and>
      (\<forall>ns. invoked (gate_deliver_all ns w2) = effects))"
proof (intro conjI allI impI)
  fix w1 assume a: "InitEffects_new effects (new_world p []) = Inr w1"
  note c = constructed_pending [OF a]
  show "invoked w1 = filter (\<lambda>e. \<not> gated e) effects" by (rule c(1))
  show "gate_subs w1 = filter gated effects" by (rule c(2))
  from c(2) gate_deliver_fields(2) [of "OnNext ()" w1]
  show n: "invoked (gate_deliver (OnNext ()) w1) = invoked w1 @ filter gated effects" by simp
  fix ns
  have "gate_subs (gate_deliver (OnNext ()) w1) = []" by (rule gate_deliver_fields(1))
  then have "gate_deliver_all ns (gate_deliver (OnNext ()) w1) = gate_deliver (OnNext ()) w1"
    by (rule gate_deliver_all_idle)
  with n show "invoked (gate_deliver_all ns (gate_deliver (OnNext ()) w1)) =
      invoked w1 @ filter gated effects" by simp
next
  fix w2 assume a: "InitEffects_new effects (new_world p (OnNext () # r)) = Inr w2"
  let ?w = "(new_world p (OnNext () # r))\<lparr>subs_closed := False, subs_members := []\<rparr>"
  have "gate_replay ?w = OnNext () # r" by (simp add: new_world_def)
  from run_replay [OF this, of effects w2] a
  show i: "invoked w2 = effects" and g: "gate_subs w2 = []"
    by (simp_all add: InitEffects_new_def new_world_def)
  fix ns
  from gate_deliver_all_idle [OF g, of ns] i
  show "invoked (gate_deliver_all ns w2) = effects" by simp
qed

text \<open>An instance: one gated and one plain entry, three values of the render stream.\<close>

theorem whenRendered_runs_once_after_render_witness:
  "InitEffects_new [ex_gated, ex_void] (new_world ex_host []) =
     Inr (result_world (InitEffects_new [ex_gated, ex_void] (new_world ex_host []))) \<and>
   invoked (result_world (InitEffects_new [ex_gated, ex_void] (new_world ex_host []))) = [ex_void] \<and>
   invoked (gate_deliver (OnNext ())
     (result_world (InitEffects_new [ex_gated, ex_void] (new_world ex_host [])))) =
     [ex_void, ex_gated] \<and>
   invoked (gate_deliver_all [OnNext (), OnNext ()] (gate_deliver (OnNext ())
     (result_world (InitEffects_new [ex_gated, ex_void] (new_world ex_host []))))) =
     [ex_void, ex_gated] \<and>
   InitEffects_new [ex_gated, ex_void] (new_world ex_host [OnNext ()]) =
     Inr (result_world (InitEffects_new [ex_gated, ex_void] (new_world ex_host [OnNext ()]))) \<and>
   invoked (gate_deliver_all [OnNext ()]
     (result_world (InitEffects_new [ex_gated, ex_void] (new_world ex_host [OnNext ()])))) =
     [ex_gated, ex_void]"
proof -
  let ?c = "InitEffects_new [ex_gated, ex_void] (new_world ex_host [])"
  let ?d = "InitEffects_new [ex_gated, ex_void] (new_world ex_host [OnNext ()])"
  have h: "?c = Inr (result_world ?c)" by (simp add: engine_defs ex_options_def ex_void_def
        ex_gated_def ex_host_def)
  have k: "?d = Inr (result_world ?d)" by (simp add: engine_defs ex_options_def ex_void_def
        ex_gated_def ex_host_def)
  have f: "filter gated [ex_gated, ex_void] = [ex_gated]"
    "filter (\<lambda>e. \<not> gated e) [ex_gated, ex_void] = [ex_void]"
    by (simp_all add: gated_def ex_options_def ex_void_def ex_gated_def ex_host_def)
  note t = whenRendered_runs_once_after_render [of "[ex_gated, ex_void]" ex_host "[]"]
  from t h have 1: "invoked (result_world ?c) = filter (\<lambda>e. \<not> gated e) [ex_gated, ex_void]"
    and 2: "invoked (gate_deliver (OnNext ()) (result_world ?c)) =
              invoked (result_world ?c) @ filter gated [ex_gated, ex_void]"
    and 3: "\<forall>ns. invoked (gate_deliver_all ns (gate_deliver (OnNext ()) (result_world ?c))) =
              invoked (result_world ?c) @ filter gated [ex_gated, ex_void]"
    by blast+
  from t k have 4: "\<forall>ns. invoked (gate_deliver_all ns (result_world ?d)) = [ex_gated, ex_void]"
    by blast
  from 1 have i1: "invoked (result_world ?c) = [ex_void]" unfolding f by simp
  from 2 have i2: "invoked (gate_deliver (OnNext ()) (result_world ?c)) = [ex_void, ex_gated]"
    unfolding f i1 by simp
  from 3 have i3: "invoked (gate_deliver_all [OnNext (), OnNext ()]
      (gate_deliver (OnNext ()) (result_world ?c))) = [ex_void, ex_gated]"
    unfolding f i1 by simp
  from 4 have i4: "invoked (gate_deliver_all [OnNext ()] (result_world ?d)) = [ex_gated, ex_void]"
    by (rule spec)
  from h i1 i2 i3 k i4 show ?thesis by blast
qed

text \<open>
  C3, as amended.  Entries initialized in order without the render gate.  As long as no
  effect function throws synchronously, \<^verbatim>\<open>run\<close> returns and every entry is invoked,
  whatever the streams of earlier entries deliver, binding errors and stream errors
  included.  When the effect function of an entry throws, \<^verbatim>\<open>run\<close> throws the same
  error to its caller with the entries up to that one invoked and none after it.  The
  same holds of \<^verbatim>\<open>connect\<close> for a host whose \<^verbatim>\<open>EFFECTS\<close> are these entries, whose
  initializers include \<^verbatim>\<open>InitEffects\<close> and otherwise resolve: it returns with every
  entry invoked, or it throws the error of the effect function with no later entry
  invoked.
\<close>

theorem failures_and_later_effects:
  assumes "\<forall>a\<in>set (pre @ e # post). \<not> gated a"
    and "\<forall>a\<in>set pre. \<not> throws a"
  shows "(\<not> throws e \<and> (\<forall>a\<in>set post. \<not> throws a) \<longrightarrow>
            (\<exists>w'. run (pre @ e # post) w = Inr w' \<and>
                  invoked w' = invoked w @ pre @ e # post)) \<and>
         (\<forall>x. effect e = Throws x \<longrightarrow>
            (\<exists>w'. run (pre @ e # post) w = Inl (x, w') \<and>
                  invoked w' = invoked w @ pre @ [e])) \<and>
         (EFFECTS ir = pre @ e # post \<and> InitEffectsT \<in> set initializers \<and>
          \<not> constructed w \<and> (\<forall>c. failing ir c = None) \<longrightarrow>
            (\<not> throws e \<and> (\<forall>a\<in>set post. \<not> throws a) \<longrightarrow>
               (\<exists>w'. connect initializers ir ctx w = Inr w' \<and>
                     invoked w' = invoked w @ pre @ e # post)) \<and>
            (\<forall>x. effect e = Throws x \<longrightarrow>
               (\<exists>w'. connect initializers ir ctx w = Inl (x, w') \<and>
                     invoked w' = invoked w @ pre @ [e])))"
proof (intro conjI allI impI)
  assume "\<not> throws e \<and> (\<forall>a\<in>set post. \<not> throws a)"
  with assms(2) have "\<forall>a\<in>set (pre @ e # post). \<not> gated a \<longrightarrow> \<not> throws a" by auto
  from run_returns [OF this, of w] obtain w' where "run (pre @ e # post) w = Inr w'" ..
  with run_ungated [OF assms(1) this]
  show "\<exists>w'. run (pre @ e # post) w = Inr w' \<and> invoked w' = invoked w @ pre @ e # post"
    by simp
next
  fix x assume "effect e = Throws x"
  from run_throws [OF assms this]
  show "\<exists>w'. run (pre @ e # post) w = Inl (x, w') \<and> invoked w' = invoked w @ pre @ [e]" .
next
  assume c: "EFFECTS ir = pre @ e # post \<and> InitEffectsT \<in> set initializers \<and>
      \<not> constructed w \<and> (\<forall>c. failing ir c = None)"
    and n: "\<not> throws e \<and> (\<forall>a\<in>set post. \<not> throws a)"
  let ?w = "w\<lparr>currentContext := insert ctx (currentContext w),
              ctx_log := ctx_log w @ [CtxAdd ctx]\<rparr>"
  from c have ef: "EFFECTS ir = pre @ e # post" and it: "InitEffectsT \<in> set initializers"
    and nc: "\<not> constructed ?w" and nf: "\<forall>c. failing ir c = None" by simp_all
  from assms(1) ef have ug: "\<forall>a\<in>set (EFFECTS ir). \<not> gated a" by simp
  from n assms(2) ef have "\<forall>a\<in>set (EFFECTS ir). \<not> gated a \<longrightarrow> \<not> throws a" by auto
  from forEach_get_returns [OF this nf, of initializers ?w] obtain w1
    where 1: "forEach_get ir initializers ?w = Inr w1" ..
  from forEach_get_invoked [OF nc it ug 1] ef
  have "invoked w1 = invoked w @ pre @ e # post" by simp
  with 1 show "\<exists>w'. connect initializers ir ctx w = Inr w' \<and>
      invoked w' = invoked w @ pre @ e # post"
    by (simp add: connect_def)
next
  fix x
  assume c: "EFFECTS ir = pre @ e # post \<and> InitEffectsT \<in> set initializers \<and>
      \<not> constructed w \<and> (\<forall>c. failing ir c = None)"
    and th: "effect e = Throws x"
  let ?w = "w\<lparr>currentContext := insert ctx (currentContext w),
              ctx_log := ctx_log w @ [CtxAdd ctx]\<rparr>"
  from c have ef: "EFFECTS ir = pre @ e # post" and it: "InitEffectsT \<in> set initializers"
    and nc: "\<not> constructed ?w" and nf: "\<forall>c. failing ir c = None" by simp_all
  from forEach_get_throws [OF assms th ef nf nc it] obtain w'
    where "forEach_get ir initializers ?w = Inl (x, w')"
      and "invoked w' = invoked ?w @ pre @ [e]" by blast
  then show "\<exists>w'. connect initializers ir ctx w = Inl (x, w') \<and>
      invoked w' = invoked w @ pre @ [e]"
    by (simp add: connect_def)
qed

text \<open>
  An instance: the stream of the first entry delivers a value that is no object to a
  whole-object binding, which is a binding error, and the entries after it still run;
  with a throwing entry in second place the third is not reached, by \<^verbatim>\<open>run\<close> and by
  \<^verbatim>\<open>connect\<close> alike.
\<close>

theorem failures_and_later_effects_witness:
  "\<not> gated ex_apply \<and> \<not> gated ex_throwing \<and> \<not> gated ex_void \<and>
   \<not> throws ex_apply \<and> \<not> throws ex_void \<and>
   effect ex_throwing = Throws ''boom'' \<and>
   error_channel (result_world (run [ex_apply] (new_world ex_host []))) =
     [ApplyNonObject (Str ''x'')] \<and>
   (\<exists>w'. run ([ex_apply] @ ex_throwing # [ex_void]) (new_world ex_host []) = Inl (''boom'', w') \<and>
         invoked w' = [ex_apply, ex_throwing]) \<and>
   (\<exists>w'. run ([] @ ex_apply # [ex_void]) (new_world ex_host []) = Inr w' \<and>
         invoked w' = [ex_apply, ex_void]) \<and>
   InitEffectsT \<in> set [OtherT ''HostRef'', InitEffectsT] \<and>
   \<not> constructed (new_world ex_host []) \<and>
   (\<exists>w'. connect [OtherT ''HostRef'', InitEffectsT]
            (ex_injector ([ex_apply] @ ex_throwing # [ex_void])) 1 (new_world ex_host []) =
            Inl (''boom'', w') \<and>
         invoked w' = [ex_apply, ex_throwing]) \<and>
   (\<exists>w'. connect [OtherT ''HostRef'', InitEffectsT]
            (ex_injector ([] @ ex_apply # [ex_void])) 1 (new_world ex_host []) = Inr w' \<and>
         invoked w' = [ex_apply, ex_void])"
proof -
  let ?w = "new_world ex_host []"
  let ?ts = "[OtherT ''HostRef'', InitEffectsT]"
  let ?i1 = "ex_injector ([ex_apply] @ ex_throwing # [ex_void])"
  let ?i2 = "ex_injector ([] @ ex_apply # [ex_void])"
  have h1: "\<forall>a\<in>set ([ex_apply] @ ex_throwing # [ex_void]). \<not> gated a"
    by (simp add: gated_def ex_options_def ex_void_def ex_throwing_def ex_apply_def)
  have h2: "\<forall>a\<in>set [ex_apply]. \<not> throws a"
    by (simp add: throws_def ex_options_def ex_apply_def)
  have h3: "effect ex_throwing = Throws ''boom''" by (simp add: ex_throwing_def)
  have h4: "\<forall>a\<in>set ([] @ ex_apply # [ex_void]). \<not> gated a"
    by (simp add: gated_def ex_options_def ex_void_def ex_apply_def)
  have h5: "\<forall>a\<in>set ([]::effect_metadata list). \<not> throws a" by simp
  have h6: "\<not> throws ex_apply \<and> (\<forall>a\<in>set [ex_void]. \<not> throws a)"
    by (simp add: throws_def ex_options_def ex_void_def ex_apply_def)
  have h7: "InitEffectsT \<in> set ?ts" by simp
  have h8: "\<not> constructed ?w" by (simp add: new_world_def)
  have c1: "EFFECTS ?i1 = [ex_apply] @ ex_throwing # [ex_void] \<and> InitEffectsT \<in> set ?ts \<and>
      \<not> constructed ?w \<and> (\<forall>c. failing ?i1 c = None)"
    by (simp add: ex_injector_def new_world_def)
  have c2: "EFFECTS ?i2 = [] @ ex_apply # [ex_void] \<and> InitEffectsT \<in> set ?ts \<and>
      \<not> constructed ?w \<and> (\<forall>c. failing ?i2 c = None)"
    by (simp add: ex_injector_def new_world_def)
  have i0: "invoked ?w = []" by (simp add: new_world_def)
  have b: "error_channel (result_world (run [ex_apply] ?w)) = [ApplyNonObject (Str ''x'')]"
    by (simp add: engine_defs ex_options_def ex_apply_def ex_host_def)
  note t1 = failures_and_later_effects [OF h1 h2, where w = ?w and ir = ?i1
      and initializers = ?ts and ctx = 1]
  note t2 = failures_and_later_effects [OF h4 h5, where w = ?w and ir = ?i2
      and initializers = ?ts and ctx = 1]
  from t1 h3 have r1: "\<exists>w'. run ([ex_apply] @ ex_throwing # [ex_void]) ?w = Inl (''boom'', w') \<and>
         invoked w' = invoked ?w @ [ex_apply] @ [ex_throwing]"
    by blast
  from t2 h6 have r2: "\<exists>w'. run ([] @ ex_apply # [ex_void]) ?w = Inr w' \<and>
         invoked w' = invoked ?w @ [] @ ex_apply # [ex_void]"
    by blast
  from t1 c1 h3 have k1: "\<exists>w'. connect ?ts ?i1 1 ?w = Inl (''boom'', w') \<and>
         invoked w' = invoked ?w @ [ex_apply] @ [ex_throwing]"
    by blast
  from t2 c2 h6 have k2: "\<exists>w'. connect ?ts ?i2 1 ?w = Inr w' \<and>
         invoked w' = invoked ?w @ [] @ ex_apply # [ex_void]"
    by blast
  have g: "\<not> gated ex_apply \<and> \<not> gated ex_throwing \<and> \<not> gated ex_void \<and>
      \<not> throws ex_apply \<and> \<not> throws ex_void"
    by (simp add: gated_def throws_def ex_options_def ex_void_def ex_throwing_def ex_apply_def)
  from r1 r2 k1 k2 have
    "(\<exists>w'. run ([ex_apply] @ ex_throwing # [ex_void]) ?w = Inl (''boom'', w') \<and>
         invoked w' = [ex_apply, ex_throwing]) \<and>
     (\<exists>w'. run ([] @ ex_apply # [ex_void]) ?w = Inr w' \<and> invoked w' = [ex_apply, ex_void]) \<and>
     (\<exists>w'. connect ?ts ?i1 1 ?w = Inl (''boom'', w') \<and> invoked w' = [ex_apply, ex_throwing]) \<and>
     (\<exists>w'. connect ?ts ?i2 1 ?w = Inr w' \<and> invoked w' = [ex_apply, ex_void])"
    unfolding i0 by simp
  with g h3 b h7 h8 show ?thesis by blast
qed

text \<open>
  C3 as stated fails: the first effect function throws, \<^verbatim>\<open>connect\<close> and \<^verbatim>\<open>run\<close>
  throw, and the second entry is never invoked.
\<close>

theorem sync_throw_stops_run_counterexample:
  "\<not> gated ex_throwing \<and> \<not> gated ex_void \<and> effect ex_throwing = Throws ''boom'' \<and>
   connect [InitEffectsT] (ex_injector [ex_throwing, ex_void]) 1 (new_world ex_host []) =
     Inl (''boom'',
          result_world (connect [InitEffectsT] (ex_injector [ex_throwing, ex_void]) 1
            (new_world ex_host []))) \<and>
   invoked (result_world (connect [InitEffectsT] (ex_injector [ex_throwing, ex_void]) 1
            (new_world ex_host []))) = [ex_throwing] \<and>
   ex_void \<notin> set (invoked (result_world
     (connect [InitEffectsT] (ex_injector [ex_throwing, ex_void]) 1 (new_world ex_host [])))) \<and>
   run [ex_throwing, ex_void] (new_world ex_host []) =
     Inl (''boom'', (new_world ex_host [])\<lparr>invoked := [ex_throwing]\<rparr>)"
  by (simp add: connect_def injector_get_def engine_defs ex_options_def ex_void_def
        ex_throwing_def ex_injector_def ex_host_def)

text \<open>
  C4.  For a host that has been constructed and has seen any notifications of the render
  stream: no teardown function has run before the host is destroyed; \<^verbatim>\<open>ngOnDestroy\<close>
  runs exactly the teardown functions that the invoked effects returned, one run per
  returning effect, in the order the effects ran; and a second \<^verbatim>\<open>ngOnDestroy\<close> changes
  nothing, so none of them runs again.
\<close>

theorem teardown_runs_once_on_destroy:
  "teardowns_of (cancelled (live_host effects p r ns)) = [] \<and>
   teardowns_of (cancelled (ngOnDestroy (live_host effects p r ns))) =
     returned_teardowns (invoked (live_host effects p r ns)) \<and>
   invoked (ngOnDestroy (live_host effects p r ns)) = invoked (live_host effects p r ns) \<and>
   ngOnDestroy (ngOnDestroy (live_host effects p r ns)) = ngOnDestroy (live_host effects p r ns)"
proof -
  note ok = scope_ok_live_host [of effects p r ns]
  from ok have "cancelled (live_host effects p r ns) = []"
    "teardowns_of (subs_members (live_host effects p r ns)) =
       returned_teardowns (invoked (live_host effects p r ns))"
    by (simp_all add: scope_ok_def)
  with ngOnDestroy_fields(1,3) [OF ok] ngOnDestroy_twice show ?thesis by simp
qed

text \<open>An instance: a plain and a gated entry that each return a teardown function.\<close>

theorem teardown_runs_once_on_destroy_witness:
  "teardowns_of (cancelled (live_host [ex_teardown, ex_gated] ex_host [] [OnNext ()])) = [] \<and>
   teardowns_of (cancelled (ngOnDestroy (live_host [ex_teardown, ex_gated] ex_host [] [OnNext ()]))) =
     [7, 9] \<and>
   teardowns_of (cancelled (ngOnDestroy (ngOnDestroy
     (live_host [ex_teardown, ex_gated] ex_host [] [OnNext ()])))) = [7, 9]"
proof -
  let ?w = "live_host [ex_teardown, ex_gated] ex_host [] [OnNext ()]"
  have i: "invoked ?w = [ex_teardown, ex_gated]"
    by (simp add: live_host_def gate_deliver_all_def gate_deliver_def gate_notify_def
          gate_close_def engine_defs ex_options_def ex_teardown_def ex_gated_def ex_host_def)
  have r: "returned_teardowns [ex_teardown, ex_gated] = [7, 9]" by (simp add: ex_options_def
        ex_teardown_def ex_gated_def ex_host_def)
  from teardown_runs_once_on_destroy [of "[ex_teardown, ex_gated]" ex_host "[]" "[OnNext ()]"]
  show ?thesis unfolding i r by simp
qed

text \<open>
  C5, as amended.  An entry resolved from a registration with \<^verbatim>\<open>apply\<close> set and no
  handler: when it emits an object, every key of the object is written onto the host
  property of that name, the other properties keep their values and no error is
  reported; when it emits a value that is no object, a binding error goes to the error
  channel and the host properties are unchanged.
\<close>

theorem apply_writes_every_key:
  assumes "resolve_one strict host r = Inr e"
    and "apply_opt (reg_options r)"
    and "handlerType r = None"
  shows "(distinct (map fst kvs) \<longrightarrow>
            (\<forall>(k, v)\<in>set kvs. props (onNext e (Obj kvs) w) k = Some v)) \<and>
         (\<forall>k. k \<notin> fst ` set kvs \<longrightarrow> props (onNext e (Obj kvs) w) k = props w k) \<and>
         error_channel (onNext e (Obj kvs) w) = error_channel w \<and>
         ((\<forall>kvs. v \<noteq> Obj kvs) \<longrightarrow>
            props (onNext e v w) = props w \<and>
            error_channel (onNext e v w) = error_channel w @ [ApplyNonObject v])"
proof -
  from resolve_one_apply [OF assms(1,2)] assms(3)
  have b: "binding e = BindWhole" and a: "adapter e = None" by simp_all
  note o = onNext_whole_object [OF b a, of kvs w]
  have 1: "distinct (map fst kvs) \<longrightarrow> (\<forall>(k, v)\<in>set kvs. props (onNext e (Obj kvs) w) k = Some v)"
  proof (intro impI ballI)
    fix kv assume d: "distinct (map fst kvs)" and m: "kv \<in> set kvs"
    obtain k v where kv: "kv = (k, v)" by (cases kv)
    from d have "distinct (map fst (rev kvs))" by (simp add: rev_map [symmetric])
    moreover from m kv have "(k, v) \<in> set (rev kvs)" by simp
    ultimately have "map_of (rev kvs) k = Some v" by (rule map_of_is_SomeI)
    then show "case kv of (k, v) \<Rightarrow> props (onNext e (Obj kvs) w) k = Some v"
      by (simp add: kv o(1))
  qed
  have 2: "\<forall>k. k \<notin> fst ` set kvs \<longrightarrow> props (onNext e (Obj kvs) w) k = props w k"
  proof (intro allI impI)
    fix k assume "k \<notin> fst ` set kvs"
    then have "map_of (rev kvs) k = None" by (simp add: map_of_eq_None_iff)
    then show "props (onNext e (Obj kvs) w) k = props w k" by (simp add: o(1) map_add_def)
  qed
  from 1 2 o(2) onNext_whole_scalar [OF b a, of v w] show ?thesis by blast
qed

text \<open>An instance: \<^verbatim>\<open>{a: 1, b: 2}\<close> onto a host that owns \<open>a\<close> and \<open>b\<close>, then a string.\<close>

theorem apply_writes_every_key_witness:
  "resolve_one False ex_host (ex_reg ''assignMany'' (ex_options\<lparr>apply_opt := True\<rparr>)) =
     Inr (ex_apply\<lparr>effect := Returns RUndefined, notifier := 0\<rparr>) \<and>
   apply_opt (reg_options (ex_reg ''assignMany'' (ex_options\<lparr>apply_opt := True\<rparr>))) \<and>
   handlerType (ex_reg ''assignMany'' (ex_options\<lparr>apply_opt := True\<rparr>)) = None \<and>
   distinct (map fst [(''a'', Num 1), (''b'', Num 2)]) \<and>
   props (onNext (ex_apply\<lparr>effect := Returns RUndefined, notifier := 0\<rparr>)
            (Obj [(''a'', Num 1), (''b'', Num 2)]) (new_world ex_host [])) ''a'' = Some (Num 1) \<and>
   props (onNext (ex_apply\<lparr>effect := Returns RUndefined, notifier := 0\<rparr>)
            (Obj [(''a'', Num 1), (''b'', Num 2)]) (new_world ex_host [])) ''b'' = Some (Num 2) \<and>
   (\<forall>kvs. Str ''x'' \<noteq> Obj kvs) \<and>
   props (onNext (ex_apply\<lparr>effect := Returns RUndefined, notifier := 0\<rparr>) (Str ''x'')
            (new_world ex_host [])) = ex_host \<and>
   error_channel (onNext (ex_apply\<lparr>effect := Returns RUndefined, notifier := 0\<rparr>) (Str ''x'')
            (new_world ex_host [])) = [ApplyNonObject (Str ''x'')]"
proof -
  let ?r = "ex_reg ''assignMany'' (ex_options\<lparr>apply_opt := True\<rparr>)"
  let ?e = "ex_apply\<lparr>effect := Returns RUndefined, notifier := 0\<rparr>"
  let ?kvs = "[(''a'', Num 1), (''b'', Num 2)]"
  let ?w = "new_world ex_host []"
  have h1: "resolve_one False ex_host ?r = Inr ?e"
    by (simp add: resolve_one_def resolve_binding_def ex_options_def ex_apply_def ex_host_def
          ex_reg_def)
  have h2: "apply_opt (reg_options ?r)" by (simp add: ex_options_def ex_apply_def ex_host_def
        ex_reg_def)
  have h3: "handlerType ?r = None" by (simp add: ex_options_def ex_apply_def ex_host_def ex_reg_def)
  have h4: "distinct (map fst ?kvs)" by simp
  have h5: "\<forall>kvs. Str ''x'' \<noteq> Obj kvs" by simp
  note t = apply_writes_every_key [OF h1 h2 h3, where kvs = ?kvs and v = "Str ''x''" and w = ?w]
  from t h4 have "\<forall>(k, v)\<in>set ?kvs. props (onNext ?e (Obj ?kvs) ?w) k = Some v" by blast
  then have a: "props (onNext ?e (Obj ?kvs) ?w) ''a'' = Some (Num 1)"
    and b: "props (onNext ?e (Obj ?kvs) ?w) ''b'' = Some (Num 2)" by simp_all
  from t h5 have "props (onNext ?e (Str ''x'') ?w) = props ?w"
    and d: "error_channel (onNext ?e (Str ''x'') ?w) = error_channel ?w @ [ApplyNonObject (Str ''x'')]"
    by blast+
  then have c: "props (onNext ?e (Str ''x'') ?w) = ex_host"
    and d': "error_channel (onNext ?e (Str ''x'') ?w) = [ApplyNonObject (Str ''x'')]"
    by (simp_all add: new_world_def)
  from h1 h2 h3 h4 h5 a b c d' show ?thesis by blast
qed

text \<open>
  C5 as stated fails: the registration sets \<^verbatim>\<open>apply\<close> and also names a handler.  The
  emitted object goes to the handler, the host properties \<open>a\<close> and \<open>b\<close> keep their
  values, and a value that is no object is handed over as well, with no binding error.
\<close>

theorem apply_with_handler_writes_nothing_counterexample:
  "resolve_one False ex_host
     ((ex_reg ''assignMany'' (ex_options\<lparr>apply_opt := True\<rparr>))\<lparr>handlerType := Some 0\<rparr>) =
     Inr (ex_apply\<lparr>effect := Returns RUndefined, adapter := Some 0, notifier := 0\<rparr>) \<and>
   apply_opt (options (ex_apply\<lparr>effect := Returns RUndefined, adapter := Some 0, notifier := 0\<rparr>)) \<and>
   props (onNext (ex_apply\<lparr>effect := Returns RUndefined, adapter := Some 0, notifier := 0\<rparr>)
            (Obj [(''a'', Num 1), (''b'', Num 2)]) (new_world ex_host [])) ''a'' = Some (Num 0) \<and>
   props (onNext (ex_apply\<lparr>effect := Returns RUndefined, adapter := Some 0, notifier := 0\<rparr>)
            (Obj [(''a'', Num 1), (''b'', Num 2)]) (new_world ex_host [])) ''b'' = Some (Num 0) \<and>
   handler_log (onNext (ex_apply\<lparr>effect := Returns RUndefined, adapter := Some 0, notifier := 0\<rparr>)
            (Obj [(''a'', Num 1), (''b'', Num 2)]) (new_world ex_host [])) =
     [(0, Obj [(''a'', Num 1), (''b'', Num 2)])] \<and>
   error_channel (onNext (ex_apply\<lparr>effect := Returns RUndefined, adapter := Some 0, notifier := 0\<rparr>)
            (Str ''x'') (new_world ex_host [])) = []"
  by (simp add: resolve_one_def resolve_binding_def onNext_def new_world_def ex_options_def
        ex_apply_def ex_host_def ex_reg_def)

text \<open>
  C6.  A registration with \<^verbatim>\<open>bind\<close> unset and \<^verbatim>\<open>apply\<close> false whose method name is
  the name of a property the host owns: outside strict mode resolution finalizes the
  binding target to that property name; in strict mode it yields no binding, and the
  resolved entry never writes a host property.
\<close>

theorem implicit_binding_by_method_name:
  assumes "bind_opt (reg_options r) = None"
    and "\<not> apply_opt (reg_options r)"
    and "host (methodName r) \<noteq> None"
  shows "resolve_binding False host (methodName r) (reg_options r) = Inr (BindProp (methodName r)) \<and>
         (\<exists>e. resolve_one False host r = Inr e \<and> binding e = BindProp (methodName r)) \<and>
         resolve_binding True host (methodName r) (reg_options r) = Inr NoBinding \<and>
         (\<exists>e. resolve_one True host r = Inr e \<and> binding e = NoBinding \<and>
              (\<forall>v w. props (onNext e v w) = props w))"
proof -
  from assms have loose: "resolve_binding False host (methodName r) (reg_options r) =
      Inr (BindProp (methodName r))"
    and strict: "resolve_binding True host (methodName r) (reg_options r) = Inr NoBinding"
    by (simp_all add: resolve_binding_def)
  from loose have 1: "\<exists>e. resolve_one False host r = Inr e \<and> binding e = BindProp (methodName r)"
    by (simp add: resolve_one_def)
  from strict have 2: "\<exists>e. resolve_one True host r = Inr e \<and> binding e = NoBinding \<and>
      (\<forall>v w. props (onNext e v w) = props w)"
    by (simp add: resolve_one_def onNext_def split: option.splits)
  from loose strict 1 2 show ?thesis by blast
qed

text \<open>An instance: the method \<open>a\<close> on a host that owns \<open>a\<close>.\<close>

theorem implicit_binding_by_method_name_witness:
  "bind_opt (reg_options (ex_reg ''a'' ex_options)) = None \<and>
   \<not> apply_opt (reg_options (ex_reg ''a'' ex_options)) \<and>
   ex_host (methodName (ex_reg ''a'' ex_options)) \<noteq> None \<and>
   resolve_binding False ex_host ''a'' ex_options = Inr (BindProp ''a'') \<and>
   resolve_binding True ex_host ''a'' ex_options = Inr NoBinding"
proof -
  let ?r = "ex_reg ''a'' ex_options"
  have h1: "bind_opt (reg_options ?r) = None" by (simp add: ex_options_def ex_host_def ex_reg_def)
  have h2: "\<not> apply_opt (reg_options ?r)" by (simp add: ex_options_def ex_host_def ex_reg_def)
  have h3: "ex_host (methodName ?r) \<noteq> None" by (simp add: ex_options_def ex_host_def
        ex_reg_def)
  from implicit_binding_by_method_name [where r = ?r and host = ex_host, OF h1 h2 h3]
  have "resolve_binding False ex_host ''a'' ex_options = Inr (BindProp ''a'') \<and>
        resolve_binding True ex_host ''a'' ex_options = Inr NoBinding"
    by (simp add: ex_reg_def)
  with h1 h2 h3 show ?thesis by blast
qed

text \<open>
  C7.  A host constructed while the render stream has nothing to replay and destroyed
  before the stream delivers anything: every gated entry had a subscription to the render
  stream, registered in the scope; \<^verbatim>\<open>ngOnDestroy\<close> cancels each of them and no subscriber
  of the render stream is left; and whatever the stream delivers later, no gated entry is
  ever invoked.
\<close>

theorem destroy_before_render_leaves_no_listener:
  assumes "InitEffects_new effects (new_world p []) = Inr w1"
  shows "gate_subs w1 = filter gated effects \<and>
         gates_of (cancelled (ngOnDestroy w1)) = filter gated effects \<and>
         gate_subs (ngOnDestroy w1) = [] \<and>
         (\<forall>ns. invoked (gate_deliver_all ns (ngOnDestroy w1)) =
                 filter (\<lambda>e. \<not> gated e) effects)"
proof -
  note c = constructed_pending [OF assms]
  note d = ngOnDestroy_fields [OF c(4)]
  from d(2) have "\<forall>ns. gate_deliver_all ns (ngOnDestroy w1) = ngOnDestroy w1"
    by (simp add: gate_deliver_all_idle)
  moreover from c(4) have "gates_of (subs_members w1) = gate_subs w1" by (simp add: scope_ok_def)
  ultimately show ?thesis using c(1,2) d(1,2,3) by simp
qed

text \<open>An instance: the render stream fires after the host is gone.\<close>

theorem destroy_before_render_leaves_no_listener_witness:
  "InitEffects_new [ex_gated, ex_void] (new_world ex_host []) =
     Inr (result_world (InitEffects_new [ex_gated, ex_void] (new_world ex_host []))) \<and>
   gate_subs (result_world (InitEffects_new [ex_gated, ex_void] (new_world ex_host []))) =
     [ex_gated] \<and>
   gate_subs (ngOnDestroy
     (result_world (InitEffects_new [ex_gated, ex_void] (new_world ex_host [])))) = [] \<and>
   invoked (gate_deliver_all [OnNext ()] (ngOnDestroy
     (result_world (InitEffects_new [ex_gated, ex_void] (new_world ex_host []))))) = [ex_void]"
proof -
  let ?c = "InitEffects_new [ex_gated, ex_void] (new_world ex_host [])"
  have h: "?c = Inr (result_world ?c)" by (simp add: engine_defs ex_options_def ex_void_def
        ex_gated_def ex_host_def)
  from destroy_before_render_leaves_no_listener [OF h] h show ?thesis
    by (simp add: gated_def ex_options_def ex_void_def ex_gated_def ex_host_def)
qed

text \<open>
  C8.  A registration that sets both \<^verbatim>\<open>bind\<close> and \<^verbatim>\<open>apply\<close>: its resolution fails with
  a configuration error, which is among the errors that resolving the host's
  registrations reports; the resolved entries are exactly those of the registrations
  without such a conflict, in order, and \<^verbatim>\<open>run\<close> initializes them.
\<close>

theorem bind_with_apply_is_reported:
  assumes "r \<in> set rs"
    and "bind_opt (reg_options r) = Some b"
    and "apply_opt (reg_options r)"
  shows "resolve_one strict host r = Inl (BindWithApply (methodName r)) \<and>
         BindWithApply (methodName r) \<in> set (fst (resolve strict host rs)) \<and>
         map Inr (snd (resolve strict host rs)) =
           map (resolve_one strict host) (filter (\<lambda>r. \<not> conflicting r) rs) \<and>
         (\<forall>w w'. (\<forall>e\<in>set (snd (resolve strict host rs)). \<not> gated e) \<longrightarrow>
                 run (snd (resolve strict host rs)) w = Inr w' \<longrightarrow>
                 invoked w' = invoked w @ snd (resolve strict host rs))"
proof -
  from assms(2,3) have c: "conflicting r" by (simp add: conflicting_def)
  have 1: "resolve_one strict host r = Inl (BindWithApply (methodName r))"
    using assms(2,3) by (simp add: resolve_one_def resolve_binding_def)
  from c assms(1) have 2: "BindWithApply (methodName r) \<in> set (fst (resolve strict host rs))"
    by (simp add: resolve_fst)
  from 1 2 resolve_snd [of strict host rs] run_ungated show ?thesis by blast
qed

text \<open>An instance: a conflicting registration followed by a sound one.\<close>

theorem bind_with_apply_is_reported_witness:
  "ex_reg ''both'' (ex_options\<lparr>bind_opt := Some ''a'', apply_opt := True\<rparr>) \<in>
     set [ex_reg ''both'' (ex_options\<lparr>bind_opt := Some ''a'', apply_opt := True\<rparr>),
          ex_reg ''b'' ex_options] \<and>
   bind_opt (reg_options (ex_reg ''both'' (ex_options\<lparr>bind_opt := Some ''a'', apply_opt := True\<rparr>))) =
     Some ''a'' \<and>
   apply_opt (reg_options (ex_reg ''both'' (ex_options\<lparr>bind_opt := Some ''a'', apply_opt := True\<rparr>))) \<and>
   BindWithApply ''both'' \<in>
     set (fst (resolve False ex_host
       [ex_reg ''both'' (ex_options\<lparr>bind_opt := Some ''a'', apply_opt := True\<rparr>),
        ex_reg ''b'' ex_options])) \<and>
   snd (resolve False ex_host
       [ex_reg ''both'' (ex_options\<lparr>bind_opt := Some ''a'', apply_opt := True\<rparr>),
        ex_reg ''b'' ex_options]) = [ex_void\<lparr>binding := BindProp ''b''\<rparr>] \<and>
   invoked (result_world (run (snd (resolve False ex_host
       [ex_reg ''both'' (ex_options\<lparr>bind_opt := Some ''a'', apply_opt := True\<rparr>),
        ex_reg ''b'' ex_options])) (new_world ex_host []))) = [ex_void\<lparr>binding := BindProp ''b''\<rparr>]"
proof -
  let ?r = "ex_reg ''both'' (ex_options\<lparr>bind_opt := Some ''a'', apply_opt := True\<rparr>)"
  let ?rs = "[?r, ex_reg ''b'' ex_options]"
  let ?w = "new_world ex_host []"
  have h1: "?r \<in> set ?rs" by simp
  have h2: "bind_opt (reg_options ?r) = Some ''a''" by (simp add: ex_options_def ex_void_def
        ex_host_def ex_reg_def)
  have h3: "apply_opt (reg_options ?r)" by (simp add: ex_options_def ex_void_def ex_host_def
        ex_reg_def)
  have s: "snd (resolve False ex_host ?rs) = [ex_void\<lparr>binding := BindProp ''b''\<rparr>]"
    by (simp add: resolve_one_def resolve_binding_def ex_options_def ex_void_def ex_host_def
          ex_reg_def)
  have g: "\<forall>e\<in>set (snd (resolve False ex_host ?rs)). \<not> gated e"
    unfolding s by (simp add: gated_def ex_options_def ex_void_def ex_host_def ex_reg_def)
  have rr: "run (snd (resolve False ex_host ?rs)) ?w =
              Inr (result_world (run (snd (resolve False ex_host ?rs)) ?w))"
    unfolding s by (simp add: engine_defs ex_options_def ex_void_def ex_host_def ex_reg_def)
  note t = bind_with_apply_is_reported [OF h1 h2 h3, of False ex_host]
  from t have e: "BindWithApply ''both'' \<in> set (fst (resolve False ex_host ?rs))"
    by (simp add: ex_reg_def)
  from t g rr have "invoked (result_world (run (snd (resolve False ex_host ?rs)) ?w)) =
      invoked ?w @ snd (resolve False ex_host ?rs)" by blast
  then have i: "invoked (result_world (run (snd (resolve False ex_host ?rs)) ?w)) =
      [ex_void\<lparr>binding := BindProp ''b''\<rparr>]"
    unfolding s by (simp add: new_world_def)
  from h1 h2 h3 e s i show ?thesis by blast
qed

text \<open>
  C9.  When the render stream delivers an error \<open>x\<close>, later to a host that is waiting
  or at once while \<^verbatim>\<open>run\<close> subscribes: no gated entry is invoked, then or ever after;
  \<^verbatim>\<open>console.error\<close> receives \<open>x\<close> once per gated entry; the entries without
  \<^verbatim>\<open>whenRendered\<close> are all invoked, and what they registered in the scope and every
  other part of the world is left as it was.  The constructor returns in both cases
  when no entry without \<^verbatim>\<open>whenRendered\<close> throws.
\<close>

theorem render_error_is_logged_and_contained:
  "(\<forall>w1. InitEffects_new effects (new_world p []) = Inr w1 \<longrightarrow>
      gate_deliver (OnError x) w1 =
        w1\<lparr>gate_subs := [],
           subs_members := filter (\<lambda>m. \<not> is_gate m) (subs_members w1),
           console := map (\<lambda>e. x) (filter gated effects)\<rparr> \<and>
      (\<forall>ns. invoked (gate_deliver_all ns (gate_deliver (OnError x) w1)) =
              filter (\<lambda>e. \<not> gated e) effects)) \<and>
   (\<forall>w2. InitEffects_new effects (new_world p (OnError x # r)) = Inr w2 \<longrightarrow>
      invoked w2 = filter (\<lambda>e. \<not> gated e) effects \<and>
      console w2 = map (\<lambda>e. x) (filter gated effects) \<and>
      gate_subs w2 = [] \<and>
      (\<forall>ns. invoked (gate_deliver_all ns w2) = filter (\<lambda>e. \<not> gated e) effects)) \<and>
   ((\<forall>e\<in>set effects. \<not> gated e \<longrightarrow> \<not> throws e) \<longrightarrow>
      (\<exists>w1. InitEffects_new effects (new_world p []) = Inr w1) \<and>
      (\<exists>w2. InitEffects_new effects (new_world p (OnError x # r)) = Inr w2))"
proof (intro conjI allI impI)
  fix w1 assume a: "InitEffects_new effects (new_world p []) = Inr w1"
  note c = constructed_pending [OF a]
  from c(4) have g: "gates_of (subs_members w1) = gate_subs w1" by (simp add: scope_ok_def)
  from fold_notify_error [OF refl g, of x] c(2,3)
  show e: "gate_deliver (OnError x) w1 =
        w1\<lparr>gate_subs := [],
           subs_members := filter (\<lambda>m. \<not> is_gate m) (subs_members w1),
           console := map (\<lambda>e. x) (filter gated effects)\<rparr>"
    by (simp add: gate_deliver_def)
  fix ns
  have "gate_subs (gate_deliver (OnError x) w1) = []" by (rule gate_deliver_fields(1))
  then have "gate_deliver_all ns (gate_deliver (OnError x) w1) = gate_deliver (OnError x) w1"
    by (rule gate_deliver_all_idle)
  with c(1) gate_deliver_fields(2) [of "OnError x" w1]
  show "invoked (gate_deliver_all ns (gate_deliver (OnError x) w1)) =
          filter (\<lambda>e. \<not> gated e) effects" by simp
next
  fix w2 assume a: "InitEffects_new effects (new_world p (OnError x # r)) = Inr w2"
  let ?w = "(new_world p (OnError x # r))\<lparr>subs_closed := False, subs_members := []\<rparr>"
  have "gate_replay ?w = OnError x # r" by (simp add: new_world_def)
  from run_replay [OF this, of effects w2] a
  show i: "invoked w2 = filter (\<lambda>e. \<not> gated e) effects"
    and "console w2 = map (\<lambda>e. x) (filter gated effects)"
    and g: "gate_subs w2 = []"
    by (simp_all add: InitEffects_new_def new_world_def)
  fix ns
  from gate_deliver_all_idle [OF g, of ns] i
  show "invoked (gate_deliver_all ns w2) = filter (\<lambda>e. \<not> gated e) effects" by simp
next
  assume "\<forall>e\<in>set effects. \<not> gated e \<longrightarrow> \<not> throws e"
  then show "\<exists>w1. InitEffects_new effects (new_world p []) = Inr w1"
    and "\<exists>w2. InitEffects_new effects (new_world p (OnError x # r)) = Inr w2"
    by (rule InitEffects_new_returns)+
qed

text \<open>An instance: a gated entry and one that returns a teardown function.\<close>

theorem render_error_is_logged_and_contained_witness:
  "gated ex_gated \<and> \<not> gated ex_teardown \<and> \<not> throws ex_teardown \<and>
   InitEffects_new [ex_gated, ex_teardown] (new_world ex_host []) =
     Inr (result_world (InitEffects_new [ex_gated, ex_teardown] (new_world ex_host []))) \<and>
   console (gate_deliver (OnError ''lost'')
     (result_world (InitEffects_new [ex_gated, ex_teardown] (new_world ex_host [])))) =
     [''lost''] \<and>
   subs_members (gate_deliver (OnError ''lost'')
     (result_world (InitEffects_new [ex_gated, ex_teardown] (new_world ex_host [])))) =
     [MTeardown 7] \<and>
   invoked (gate_deliver_all [OnNext ()] (gate_deliver (OnError ''lost'')
     (result_world (InitEffects_new [ex_gated, ex_teardown] (new_world ex_host []))))) =
     [ex_teardown] \<and>
   InitEffects_new [ex_gated, ex_teardown] (new_world ex_host [OnError ''lost'']) =
     Inr (result_world (InitEffects_new [ex_gated, ex_teardown]
            (new_world ex_host [OnError ''lost'']))) \<and>
   invoked (result_world (InitEffects_new [ex_gated, ex_teardown]
            (new_world ex_host [OnError ''lost'']))) = [ex_teardown] \<and>
   console (result_world (InitEffects_new [ex_gated, ex_teardown]
            (new_world ex_host [OnError ''lost'']))) = [''lost'']"
proof -
  let ?es = "[ex_gated, ex_teardown]"
  let ?c1 = "InitEffects_new ?es (new_world ex_host [])"
  let ?c2 = "InitEffects_new ?es (new_world ex_host [OnError ''lost''])"
  have h: "\<forall>e\<in>set ?es. \<not> gated e \<longrightarrow> \<not> throws e" by (simp
        add: gated_def throws_def ex_options_def ex_teardown_def ex_gated_def ex_host_def)
  have h1: "?c1 = Inr (result_world ?c1)" by (simp add: engine_defs ex_options_def
        ex_teardown_def ex_gated_def ex_host_def)
  have h2: "?c2 = Inr (result_world ?c2)" by (simp add: engine_defs ex_options_def
        ex_teardown_def ex_gated_def ex_host_def)
  have m: "filter (\<lambda>m. \<not> is_gate m) (subs_members (result_world ?c1)) = [MTeardown 7]"
    by (simp add: engine_defs ex_options_def ex_teardown_def ex_gated_def ex_host_def)
  have f: "filter gated ?es = [ex_gated]" "filter (\<lambda>e. \<not> gated e) ?es = [ex_teardown]"
    by (simp_all add: gated_def ex_options_def ex_teardown_def ex_gated_def ex_host_def)
  note t = render_error_is_logged_and_contained [of ?es ex_host "''lost''" "[]"]
  from t h1 have a: "gate_deliver (OnError ''lost'') (result_world ?c1) =
      (result_world ?c1)\<lparr>gate_subs := [],
         subs_members := filter (\<lambda>m. \<not> is_gate m) (subs_members (result_world ?c1)),
         console := map (\<lambda>e. ''lost'') (filter gated ?es)\<rparr>"
    and b: "\<forall>ns. invoked (gate_deliver_all ns (gate_deliver (OnError ''lost'') (result_world ?c1))) =
              filter (\<lambda>e. \<not> gated e) ?es"
    by blast+
  from t h2 have c: "invoked (result_world ?c2) = filter (\<lambda>e. \<not> gated e) ?es"
    and d: "console (result_world ?c2) = map (\<lambda>e. ''lost'') (filter gated ?es)"
    by blast+
  have a1: "console (gate_deliver (OnError ''lost'') (result_world ?c1)) = [''lost'']"
    unfolding a f by simp
  have a2: "subs_members (gate_deliver (OnError ''lost'') (result_world ?c1)) = [MTeardown 7]"
    unfolding a m by simp
  from b [unfolded f] have b1: "invoked (gate_deliver_all [OnNext ()]
      (gate_deliver (OnError ''lost'') (result_world ?c1))) = [ex_teardown]"
    by (rule spec)
  from c [unfolded f] d [unfolded f] have c1: "invoked (result_world ?c2) = [ex_teardown]"
    and d1: "console (result_world ?c2) = [''lost'']" by simp_all
  have g: "gated ex_gated \<and> \<not> gated ex_teardown \<and> \<not> throws ex_teardown"
    by (simp add: gated_def throws_def ex_options_def ex_teardown_def ex_gated_def ex_host_def)
  from g h1 h2 a1 a2 b1 c1 d1 show ?thesis by blast
qed

text \<open>
  C10.  When \<^verbatim>\<open>connect\<close> returns normally, the log of the call reads: the context is
  added to \<open>currentContext\<close>, then every initializer is requested from the injector in
  the order of the collection, each request seeing the context in the set, then the set
  is cleared; and \<open>currentContext\<close> is empty afterwards.
\<close>

theorem connect_context_protocol:
  assumes "connect initializers ir context w = Inr w'"
  shows "currentContext w' = {} \<and>
         ctx_log w' =
           ctx_log w @ [CtxAdd context] @
           map (\<lambda>t. Resolve t (insert context (currentContext w))) initializers @ [CtxClear]"
proof -
  let ?w = "w\<lparr>currentContext := insert context (currentContext w),
              ctx_log := ctx_log w @ [CtxAdd context]\<rparr>"
  from assms obtain w1 where 1: "forEach_get ir initializers ?w = Inr w1"
    and 2: "w' = w1\<lparr>currentContext := {}, ctx_log := ctx_log w1 @ [CtxClear]\<rparr>"
    by (auto simp: connect_def split: sum.splits)
  from forEach_get_log [OF 1] 2 show ?thesis by simp
qed

text \<open>An instance with two initializers and context 5.\<close>

theorem connect_context_protocol_witness:
  "connect [InitEffectsT, OtherT ''HostRef''] (ex_injector [ex_void]) 5 (new_world ex_host []) =
     Inr (result_world (connect [InitEffectsT, OtherT ''HostRef''] (ex_injector [ex_void]) 5
            (new_world ex_host []))) \<and>
   currentContext (result_world (connect [InitEffectsT, OtherT ''HostRef''] (ex_injector [ex_void]) 5
            (new_world ex_host []))) = {} \<and>
   ctx_log (result_world (connect [InitEffectsT, OtherT ''HostRef''] (ex_injector [ex_void]) 5
            (new_world ex_host []))) =
     [CtxAdd 5, Resolve InitEffectsT {5}, Resolve (OtherT ''HostRef'') {5}, CtxClear]"
proof -
  let ?c = "connect [InitEffectsT, OtherT ''HostRef''] (ex_injector [ex_void]) 5 (new_world ex_host [])"
  have h: "?c = Inr (result_world ?c)"
    by (simp add: connect_def injector_get_def engine_defs ex_options_def ex_void_def
          ex_injector_def ex_host_def)
  from connect_context_protocol [OF h] h show ?thesis by (simp add: new_world_def)
qed

end
